theory Spec2Isabelle
  imports Main "HOL-Library.Char_ord" "HOL-Library.List_Lexorder"
begin

section \<open>The Kudu parcel upgrade script (\<^verbatim>\<open>src/kudu/scripts/upgrade.py\<close>)\<close>

text \<open>
  The script talks to Cloudera Manager through the \<^verbatim>\<open>cm_api\<close> client.  The objects of that
  client are modelled as records holding exactly the fields and answers the script reads.
  Python 2 strings are byte strings: \<^typ>\<open>string\<close>, compared lexicographically byte by byte
  (\<^verbatim>\<open>Char_ord\<close> and \<^verbatim>\<open>List_Lexorder\<close>), which is what \<^verbatim>\<open>>\<close> and \<^verbatim>\<open>max\<close> do on them.
\<close>

subsection \<open>Data model\<close>

text \<open>\<^verbatim>\<open>parcel.state\<close>: the error list and the two progress counters.  An absent (\<^verbatim>\<open>None\<close>) error
  list is as false as an empty one in \<^verbatim>\<open>if new_parcel.state.errors\<close>; both are \<^term>\<open>[]\<close> here.\<close>

record parcel_state =
  errors :: "string list"
  progress :: int
  totalProgress :: int

text \<open>A parcel as the API reports it.  The field \<^verbatim>\<open>product\<close> is named \<open>product_id\<close> because
  \<open>product\<close> is a constant of the list library.  The stage is the string sent by the server.\<close>

record parcel =
  product_id :: string
  version :: string
  stage :: string
  state :: parcel_state

text \<open>A cluster handle.  \<open>get_all_parcels\<close> is the answer of \<^verbatim>\<open>cluster.get_all_parcels()\<close>.
  \<open>get_parcel n product version\<close> is the answer of the \<open>n\<close>-th call (counted from 0) of
  \<^verbatim>\<open>cluster.get_parcel(product, version)\<close> in the run: the script is sequential, so whatever the
  server does between two calls, the answers it gives form such a sequence.\<close>

record cluster =
  displayName :: string
  get_all_parcels :: "parcel list"
  get_parcel :: "nat \<Rightarrow> string \<Rightarrow> string \<Rightarrow> parcel"

text \<open>Every \<^verbatim>\<open>raise Exception(...)\<close> of the script, with the values its message is formatted
  from, and the failure of the server's own lookup of a named cluster.\<close>

datatype error =
    Malformed_version string
      \<comment> \<open>\<^verbatim>\<open>"Could not get the release version from %s."\<close>\<close>
  | No_upgrade_candidates string string
      \<comment> \<open>\<^verbatim>\<open>"No upgrade candidates available for parcel version %s-%s."\<close>\<close>
  | No_activated_parcels
      \<comment> \<open>\<^verbatim>\<open>"No activated KUDU parcels found. Activate one first and then upgrade."\<close>\<close>
  | Fetch_error "string list"
      \<comment> \<open>\<^verbatim>\<open>"Fetching parcel resulted in error %s"\<close>\<close>
  | Stage_timeout string string string int
      \<comment> \<open>\<^verbatim>\<open>"Parcel %s-%s did not reach stage %s in %d seconds."\<close>\<close>
  | No_clusters
      \<comment> \<open>\<^verbatim>\<open>"No clusters found; create one before calling this script."\<close>\<close>
  | Ambiguous_cluster
      \<comment> \<open>\<^verbatim>\<open>"More than one cluster found; specify which cluster to use using --cluster."\<close>\<close>
  | Api_error string
      \<comment> \<open>an exception of the client's \<^verbatim>\<open>get_cluster(name)\<close>\<close>
  | Overflow_error
      \<comment> \<open>\<^verbatim>\<open>OverflowError\<close> of \<^verbatim>\<open>xrange\<close>: \<^verbatim>\<open>"Python int too large to convert to C long"\<close>\<close>

text \<open>The API root: the answer of \<^verbatim>\<open>get_all_clusters()\<close> and the server's lookup of a name.\<close>

record api =
  get_all_clusters :: "cluster list"
  get_cluster :: "string \<Rightarrow> error + cluster"

text \<open>The lines the script prints, with the values each is formatted from.\<close>

datatype message =
    Chose_parcel string string string
      \<comment> \<open>\<^verbatim>\<open>"Chose the new parcel %s-%s (Stage: %s)."\<close>\<close>
  | Progress_line int int
      \<comment> \<open>\<^verbatim>\<open>"progress: %s / %s"\<close>\<close>
  | Downloading string string
  | Downloaded string string
  | Distributing string string
  | Distributed string string
  | Activating string string
  | Activated string string
  | Found_cluster string
      \<comment> \<open>\<^verbatim>\<open>"Found cluster: %s"\<close>\<close>

text \<open>What the script does to the outside, in order: the printed lines, the status fetches, the
  one-second sleeps and the three requests, each request with the product and version of the
  parcel it is made on.\<close>

datatype event =
    Print message
  | Get_parcel string string
  | Sleep nat
  | Start_download string string
  | Start_distribution string string
  | Activate string string

text \<open>The state threaded through a run: how many status fetches were made, and the events so
  far.  With them goes the one thing the script depends on in the interpreter, the width of a C
  \<^verbatim>\<open>long\<close> in bits, which no step changes.\<close>

record world =
  long_bits :: nat
  polls :: nat
  trace :: "event list"

text \<open>\<^verbatim>\<open>sys.maxint\<close>, the greatest C \<^verbatim>\<open>long\<close>: \<open>2\<^sup>3\<^sup>1 - 1\<close> or \<open>2\<^sup>6\<^sup>3 - 1\<close> on the usual machines.  A
  \<^verbatim>\<open>long\<close> has at least 32 bits in C, hence the \<open>max\<close>.\<close>

definition sys_maxint :: "world \<Rightarrow> int" where
  "sys_maxint w = 2 ^ (max 32 (long_bits w) - 1) - 1"

definition fits_long :: "world \<Rightarrow> int \<Rightarrow> bool" where
  "fits_long w n \<longleftrightarrow> - sys_maxint w - 1 \<le> n \<and> n \<le> sys_maxint w"

text \<open>\<^verbatim>\<open>xrange(start, stop)\<close> of Python 2: its arguments are converted to C \<^verbatim>\<open>long\<close>, and one
  that does not fit raises \<^verbatim>\<open>OverflowError\<close>; else it has \<open>stop - start\<close> items, none when that
  is negative.  \<open>xrange_len\<close> is the number of items.\<close>

definition xrange_len :: "world \<Rightarrow> int \<Rightarrow> int \<Rightarrow> error + nat" where
  "xrange_len w start stop =
     (if fits_long w start \<and> fits_long w stop then Inr (nat (stop - start))
      else Inl Overflow_error)"

type_synonym 'a run = "world \<Rightarrow> (error + 'a) \<times> world"

definition emit :: "event \<Rightarrow> world \<Rightarrow> world" where
  "emit e w = w\<lparr>trace := trace w @ [e]\<rparr>"

definition fetch_parcel :: "cluster \<Rightarrow> string \<Rightarrow> string \<Rightarrow> world \<Rightarrow> parcel \<times> world" where
  "fetch_parcel c pr v w =
     (get_parcel c (polls w) pr v,
      w\<lparr>polls := Suc (polls w), trace := trace w @ [Get_parcel pr v]\<rparr>)"

text \<open>Sequencing: a raised exception ends the run with the world as it was then.\<close>

definition and_then :: "'a run \<Rightarrow> ('a \<Rightarrow> 'b run) \<Rightarrow> 'b run" where
  "and_then m f w = (case m w of (Inl e, w') \<Rightarrow> (Inl e, w') | (Inr x, w') \<Rightarrow> f x w')"

subsection \<open>\<^verbatim>\<open>re.match\<close> on the pattern of the script\<close>

text \<open>
  The pattern \<^verbatim>\<open>(\d+\.\d+\.\d+).*\<close> is a sequence of one-character atoms, each alone or under a
  greedy \<^verbatim>\<open>+\<close> or \<^verbatim>\<open>*\<close>.  Python's matcher is a backtracking one: a greedy repetition first takes
  as many characters as it can and gives them back one at a time while the rest of the pattern
  fails.  \<open>match_pieces\<close> does that, and returns how many characters each piece took in the first
  match found.  In a byte-string pattern without flags \<^verbatim>\<open>\d\<close> is \<^verbatim>\<open>[0-9]\<close> and \<^verbatim>\<open>.\<close> is any
  character but a newline.
\<close>

datatype atom = Digit | Lit char | Any_char

datatype piece = One atom | Plus atom | Star atom

definition is_digit :: "char \<Rightarrow> bool" where
  "is_digit c = (c \<in> set ''0123456789'')"

fun atom_matches :: "atom \<Rightarrow> char \<Rightarrow> bool" where
  "atom_matches Digit c = is_digit c"
| "atom_matches (Lit x) c = (c = x)"
| "atom_matches Any_char c = (c \<noteq> CHR 0x0A)"

text \<open>\<open>try_counts f lo n\<close>: the repetition takes \<open>n\<close> characters, then \<open>n - 1\<close>, down to \<open>lo\<close>,
  until the rest of the pattern (\<open>f\<close>) matches what is left.\<close>

fun try_counts :: "(nat \<Rightarrow> nat list option) \<Rightarrow> nat \<Rightarrow> nat \<Rightarrow> nat list option" where
  "try_counts f lo 0 = (if lo = 0 then map_option (Cons 0) (f 0) else None)"
| "try_counts f lo (Suc n) =
     (if Suc n < lo then None
      else case f (Suc n) of
             Some r \<Rightarrow> Some (Suc n # r)
           | None \<Rightarrow> try_counts f lo n)"

fun match_pieces :: "piece list \<Rightarrow> string \<Rightarrow> nat list option" where
  "match_pieces [] s = Some []"
| "match_pieces (One a # ps) s =
     (case s of
        [] \<Rightarrow> None
      | c # cs \<Rightarrow> if atom_matches a c then map_option (Cons 1) (match_pieces ps cs) else None)"
| "match_pieces (Plus a # ps) s =
     try_counts (\<lambda>n. match_pieces ps (drop n s)) 1 (length (takeWhile (atom_matches a) s))"
| "match_pieces (Star a # ps) s =
     try_counts (\<lambda>n. match_pieces ps (drop n s)) 0 (length (takeWhile (atom_matches a) s))"

text \<open>The pieces inside the parentheses, and the pieces after them.\<close>

definition release_group :: "piece list" where
  "release_group =
     [Plus Digit, One (Lit CHR ''.''), Plus Digit, One (Lit CHR ''.''), Plus Digit]"

definition release_rest :: "piece list" where
  "release_rest = [Star Any_char]"

text \<open>\<^verbatim>\<open>re.match(pattern, s)\<close> followed by \<^verbatim>\<open>.group(1)\<close>: \<open>None\<close> when there is no match at the
  start of \<open>s\<close>, else the characters taken by the pieces of the group.\<close>

definition re_match_group1 :: "piece list \<Rightarrow> piece list \<Rightarrow> string \<Rightarrow> string option" where
  "re_match_group1 grp rest s =
     map_option (\<lambda>ns. take (sum_list (take (length grp) ns)) s) (match_pieces (grp @ rest) s)"

subsection \<open>Candidate selection\<close>

definition get_release_version :: "string \<Rightarrow> error + string" where
  "get_release_version full_version =
     (case re_match_group1 release_group release_rest full_version of
        None \<Rightarrow> Inl (Malformed_version full_version)
      | Some g \<Rightarrow> Inr g)"

text \<open>The left operand of \<^verbatim>\<open>==\<close> is evaluated first.\<close>

definition release_versions_match :: "parcel \<Rightarrow> parcel \<Rightarrow> error + bool" where
  "release_versions_match parcel1 parcel2 =
     (case get_release_version (version parcel1) of
        Inl e \<Rightarrow> Inl e
      | Inr r1 \<Rightarrow>
          (case get_release_version (version parcel2) of
             Inl e \<Rightarrow> Inl e
           | Inr r2 \<Rightarrow> Inr (r1 = r2)))"

text \<open>The first loop: the KUDU parcels, the activated ones in one list and the others in a
  second one, each in the order of the server's answer.\<close>

fun collect_parcels ::
  "parcel list \<Rightarrow> parcel list \<times> parcel list \<Rightarrow> parcel list \<times> parcel list" where
  "collect_parcels [] acc = acc"
| "collect_parcels (p # ps) (activated_parcels, candidate_parcels) =
     collect_parcels ps
       (if product_id p = ''KUDU'' then
          (if stage p = ''ACTIVATED'' then (activated_parcels @ [p], candidate_parcels)
           else (activated_parcels, candidate_parcels @ [p]))
        else (activated_parcels, candidate_parcels))"

text \<open>\<^verbatim>\<open>max(xs, key=...)\<close> on a non-empty list: the first of the items with the greatest key.
  \<open>max_by_key key m xs\<close> goes on from the greatest item so far, \<open>m\<close>.\<close>

fun max_by_key :: "('a \<Rightarrow> 'k::linorder) \<Rightarrow> 'a \<Rightarrow> 'a list \<Rightarrow> 'a" where
  "max_by_key key m [] = m"
| "max_by_key key m (x # xs) = max_by_key key (if key m < key x then x else m) xs"

text \<open>The list comprehension: \<^verbatim>\<open>release_versions_match\<close> is called on every candidate, in
  order, and the first exception it raises ends the comprehension; \<^verbatim>\<open>and\<close> evaluates the
  comparison of the versions only when the releases match, and that comparison cannot raise.\<close>

fun filter_candidates :: "parcel \<Rightarrow> parcel list \<Rightarrow> error + parcel list" where
  "filter_candidates greatest_activated [] = Inr []"
| "filter_candidates greatest_activated (p # ps) =
     (case release_versions_match p greatest_activated of
        Inl e \<Rightarrow> Inl e
      | Inr same \<Rightarrow>
          (case filter_candidates greatest_activated ps of
             Inl e \<Rightarrow> Inl e
           | Inr kept \<Rightarrow>
               Inr (if same \<and> version greatest_activated < version p then p # kept else kept)))"

definition get_best_upgrade_candidate_parcel :: "cluster \<Rightarrow> parcel run" where
  "get_best_upgrade_candidate_parcel c w =
     (case collect_parcels (get_all_parcels c) ([], []) of
        (activated_parcels, candidate_parcels) \<Rightarrow>
          (case activated_parcels of
             [] \<Rightarrow> (Inl No_activated_parcels, w)
           | a # as \<Rightarrow>
               (let greatest_activated = max_by_key version a as in
                case filter_candidates greatest_activated candidate_parcels of
                  Inl e \<Rightarrow> (Inl e, w)
                | Inr [] \<Rightarrow>
                    (Inl (No_upgrade_candidates (product_id greatest_activated)
                            (version greatest_activated)), w)
                | Inr (k # ks) \<Rightarrow>
                    (let greatest_candidate = max_by_key version k ks in
                     (Inr greatest_candidate,
                      emit (Print (Chose_parcel (product_id greatest_candidate)
                                     (version greatest_candidate)
                                     (stage greatest_candidate))) w)))))"

subsection \<open>The stage driver\<close>

text \<open>The loop \<^verbatim>\<open>for attempt in xrange(1, max_time + 1)\<close> with its \<^verbatim>\<open>else\<close> branch, which
  runs when the attempts are used up: \<open>wait_attempts\<close> with the number of attempts left.\<close>

fun wait_attempts :: "cluster \<Rightarrow> parcel \<Rightarrow> string \<Rightarrow> int \<Rightarrow> nat \<Rightarrow> unit run" where
  "wait_attempts c p target max_time 0 w =
     (Inl (Stage_timeout (product_id p) (version p) target max_time), w)"
| "wait_attempts c p target max_time (Suc k) w =
     (case fetch_parcel c (product_id p) (version p) w of
        (new_parcel, w1) \<Rightarrow>
          if stage new_parcel = target then (Inr (), w1)
          else if errors (state new_parcel) \<noteq> [] then
            (Inl (Fetch_error (errors (state new_parcel))), w1)
          else
            wait_attempts c p target max_time k
              (emit (Sleep 1)
                 (emit (Print (Progress_line (progress (state new_parcel))
                                 (totalProgress (state new_parcel)))) w1)))"

text \<open>\<^verbatim>\<open>xrange(1, max_time + 1)\<close> is built before the first attempt: it raises when
  \<open>max_time + 1\<close> is no C \<^verbatim>\<open>long\<close>, and else has \<open>max_time\<close> items, none when \<open>max_time \<le> 0\<close>.\<close>

definition wait_for_parcel_stage :: "cluster \<Rightarrow> parcel \<Rightarrow> string \<Rightarrow> int \<Rightarrow> unit run" where
  "wait_for_parcel_stage c p target max_time w =
     (case xrange_len w 1 (max_time + 1) of
        Inl e \<Rightarrow> (Inl e, w)
      | Inr attempts \<Rightarrow> wait_attempts c p target max_time attempts w)"

text \<open>The three \<^verbatim>\<open>if\<close> blocks of \<^verbatim>\<open>ensure_parcel_activated\<close>.  Each takes the local variable
  \<^verbatim>\<open>parcel_stage\<close> and returns its value after the block.\<close>

definition download_step :: "cluster \<Rightarrow> parcel \<Rightarrow> int \<Rightarrow> string \<Rightarrow> string run" where
  "download_step c p max_time_per_stage parcel_stage w =
     (if parcel_stage = ''AVAILABLE_REMOTELY'' then
        and_then
          (wait_for_parcel_stage c p ''DOWNLOADED'' max_time_per_stage)
          (\<lambda>_ w'. (Inr ''DOWNLOADED'', emit (Print (Downloaded (product_id p) (version p))) w'))
          (emit (Start_download (product_id p) (version p))
             (emit (Print (Downloading (product_id p) (version p))) w))
      else (Inr parcel_stage, w))"

definition distribute_step :: "cluster \<Rightarrow> parcel \<Rightarrow> int \<Rightarrow> string \<Rightarrow> string run" where
  "distribute_step c p max_time_per_stage parcel_stage w =
     (if parcel_stage = ''DOWNLOADED'' then
        and_then
          (wait_for_parcel_stage c p ''DISTRIBUTED'' max_time_per_stage)
          (\<lambda>_ w'. (Inr ''DISTRIBUTED'', emit (Print (Distributed (product_id p) (version p))) w'))
          (emit (Start_distribution (product_id p) (version p))
             (emit (Print (Distributing (product_id p) (version p))) w))
      else (Inr parcel_stage, w))"

definition activate_step :: "cluster \<Rightarrow> parcel \<Rightarrow> int \<Rightarrow> string \<Rightarrow> unit run" where
  "activate_step c p max_time_per_stage parcel_stage w =
     (if parcel_stage = ''DISTRIBUTED'' then
        and_then
          (wait_for_parcel_stage c p ''ACTIVATED'' max_time_per_stage)
          (\<lambda>_ w'. (Inr (), emit (Print (Activated (product_id p) (version p))) w'))
          (emit (Activate (product_id p) (version p))
             (emit (Print (Activating (product_id p) (version p))) w))
      else (Inr (), w))"

definition ensure_parcel_activated :: "cluster \<Rightarrow> parcel \<Rightarrow> int \<Rightarrow> unit run" where
  "ensure_parcel_activated c p max_time_per_stage =
     and_then (download_step c p max_time_per_stage (stage p))
       (\<lambda>parcel_stage.
          and_then (distribute_step c p max_time_per_stage parcel_stage)
            (activate_step c p max_time_per_stage))"

subsection \<open>Cluster resolution and the whole run\<close>

text \<open>\<^verbatim>\<open>if cluster_name:\<close> is false for \<^verbatim>\<open>None\<close> (no \<^verbatim>\<open>--cluster\<close>) and for the empty string.\<close>

definition find_cluster :: "api \<Rightarrow> string option \<Rightarrow> cluster run" where
  "find_cluster a cluster_name w =
     (case cluster_name of
        Some (n # ns) \<Rightarrow> (get_cluster a (n # ns), w)
      | _ \<Rightarrow>
          (let all_clusters = get_all_clusters a in
           if length all_clusters = 0 then (Inl No_clusters, w)
           else if length all_clusters > 1 then (Inl Ambiguous_cluster, w)
           else (Inr (hd all_clusters),
                 emit (Print (Found_cluster (displayName (hd all_clusters)))) w)))"

text \<open>The arguments \<^verbatim>\<open>main\<close> reads after the API handle is built from host, user and password.\<close>

record args =
  cluster_arg :: "string option"
  max_time_per_stage :: int

definition main :: "api \<Rightarrow> args \<Rightarrow> unit run" where
  "main a ar =
     and_then (find_cluster a (cluster_arg ar))
       (\<lambda>c. and_then (get_best_upgrade_candidate_parcel c)
          (\<lambda>p. ensure_parcel_activated c p (max_time_per_stage ar)))"

subsection \<open>Notions the properties are stated with\<close>

text \<open>A version string starts with digits, a dot, digits, a dot and digits: the pattern read as
  a description of strings, with no reference to the matcher.\<close>

definition has_release_prefix :: "string \<Rightarrow> bool" where
  "has_release_prefix v \<longleftrightarrow>
     (\<exists>a b c rest. a \<noteq> [] \<and> b \<noteq> [] \<and> c \<noteq> [] \<and> (\<forall>x\<in>set (a @ b @ c). is_digit x) \<and>
        v = a @ ''.'' @ b @ ''.'' @ c @ rest)"

text \<open>The same reading as a function: the longest run of digits, a dot, the longest run of
  digits, a dot, the longest run of digits.  The matcher is shown below to compute it.\<close>

definition leading_triplet :: "string \<Rightarrow> string option" where
  "leading_triplet v =
     (let a = takeWhile is_digit v; r1 = dropWhile is_digit v;
          b = takeWhile is_digit (tl r1); r2 = dropWhile is_digit (tl r1);
          c = takeWhile is_digit (tl r2)
      in if a \<noteq> [] \<and> r1 \<noteq> [] \<and> hd r1 = CHR ''.'' \<and> b \<noteq> [] \<and> r2 \<noteq> [] \<and>
            hd r2 = CHR ''.'' \<and> c \<noteq> []
         then Some (a @ ''.'' @ b @ ''.'' @ c) else None)"

text \<open>The KUDU parcels of a cluster that are activated, and those that are not.\<close>

definition kudu_activated :: "parcel list \<Rightarrow> parcel list" where
  "kudu_activated ps = filter (\<lambda>p. product_id p = ''KUDU'' \<and> stage p = ''ACTIVATED'') ps"

definition kudu_candidates :: "parcel list \<Rightarrow> parcel list" where
  "kudu_candidates ps = filter (\<lambda>p. product_id p = ''KUDU'' \<and> stage p \<noteq> ''ACTIVATED'') ps"

text \<open>\<open>p\<close> has the release of \<open>base\<close>, both extracted by the script's function, and a greater
  version string.\<close>

definition is_upgrade_of :: "parcel \<Rightarrow> parcel \<Rightarrow> bool" where
  "is_upgrade_of base p \<longleftrightarrow>
     (case (get_release_version (version p), get_release_version (version base)) of
        (Inr r1, Inr r2) \<Rightarrow> r1 = r2
      | _ \<Rightarrow> False) \<and> version base < version p"

text \<open>The requests that change the server: download, distribution, activation.\<close>

fun is_request :: "event \<Rightarrow> bool" where
  "is_request (Start_download _ _) = True"
| "is_request (Start_distribution _ _) = True"
| "is_request (Activate _ _) = True"
| "is_request _ = False"


text \<open>The answer of the \<open>n\<close>-th status fetch made for parcel \<open>p\<close>, and whether it lets the wait for
  \<open>target\<close> go on: it is not at the target stage and reports no error.\<close>

definition status_at :: "cluster \<Rightarrow> parcel \<Rightarrow> nat \<Rightarrow> parcel" where
  "status_at c p n = get_parcel c n (product_id p) (version p)"

definition pending :: "string \<Rightarrow> parcel \<Rightarrow> bool" where
  "pending target st \<longleftrightarrow> stage st \<noteq> target \<and> errors (state st) = []"

text \<open>The events of \<open>j\<close> attempts that each find the parcel pending, the first of them being
  fetch number \<open>n\<close>: a fetch, the progress line and the sleep.\<close>

fun idle_events :: "cluster \<Rightarrow> parcel \<Rightarrow> nat \<Rightarrow> nat \<Rightarrow> event list" where
  "idle_events c p n 0 = []"
| "idle_events c p n (Suc j) =
     [Get_parcel (product_id p) (version p),
      Print (Progress_line (progress (state (status_at c p n)))
               (totalProgress (state (status_at c p n)))),
      Sleep 1] @ idle_events c p (Suc n) j"

text \<open>Parcels, clusters and the starting state of the examples.\<close>

abbreviation mk_parcel :: "string \<Rightarrow> string \<Rightarrow> string \<Rightarrow> parcel" where
  "mk_parcel pr v st \<equiv>
     \<lparr>product_id = pr, version = v, stage = st,
      state = \<lparr>errors = [], progress = 0, totalProgress = 0\<rparr>\<rparr>"

abbreviation mk_cluster :: "parcel list \<Rightarrow> (nat \<Rightarrow> parcel) \<Rightarrow> cluster" where
  "mk_cluster ps answers \<equiv>
     \<lparr>displayName = ''Cluster 1'', get_all_parcels = ps, get_parcel = (\<lambda>n _ _. answers n)\<rparr>"

abbreviation start :: world where
  "start \<equiv> \<lparr>long_bits = 64, polls = 0, trace = []\<rparr>"

section \<open>The matcher on the release pattern\<close>

lemma try_counts_all_None:
  "(\<And>k. k \<le> n \<Longrightarrow> f k = None) \<Longrightarrow> try_counts f lo n = None"
  by (induction n) auto

lemma try_counts_greedy:
  "(\<And>k. k < n \<Longrightarrow> f k = None) \<Longrightarrow>
   try_counts f lo n = (if lo \<le> n then map_option (Cons n) (f n) else None)"
proof (cases n)
  case 0
  then show ?thesis by simp
next
  case (Suc m)
  assume none: "\<And>k. k < n \<Longrightarrow> f k = None"
  have "try_counts f lo m = None"
    by (rule try_counts_all_None) (simp add: none Suc)
  then show ?thesis
    using Suc by (auto split: option.splits)
qed

lemma try_counts_first:
  "f n = Some r \<Longrightarrow> lo \<le> n \<Longrightarrow> try_counts f lo n = Some (n # r)"
  by (cases n) auto

lemma not_digit_dot [simp]: "\<not> is_digit CHR ''.''"
  by (simp add: is_digit_def)

lemma drop_length_takeWhile: "drop (length (takeWhile P s)) s = dropWhile P s"
  by (simp add: dropWhile_eq_drop)

lemma drop_in_takeWhile:
  assumes "k < length (takeWhile P s)"
  shows "\<exists>x xs. drop k s = x # xs \<and> P x"
proof -
  have k: "k < length s"
    using assms length_takeWhile_le [of P s] by simp
  have "P (s ! k)"
    using assms by (metis nth_mem set_takeWhileD takeWhile_nth)
  moreover have "drop k s = s ! k # drop (Suc k) s"
    using k by (simp add: Cons_nth_drop_Suc)
  ultimately show ?thesis by blast
qed

lemma match_plus_digit_dot:
  "match_pieces (Plus Digit # One (Lit CHR ''.'') # ps) s =
     (if takeWhile is_digit s \<noteq> [] \<and> dropWhile is_digit s \<noteq> [] \<and>
         hd (dropWhile is_digit s) = CHR ''.''
      then map_option (\<lambda>ns. length (takeWhile is_digit s) # 1 # ns)
             (match_pieces ps (tl (dropWhile is_digit s)))
      else None)"
proof -
  let ?n = "length (takeWhile is_digit s)"
  let ?f = "\<lambda>k. match_pieces (One (Lit CHR ''.'') # ps) (drop k s)"
  have am: "atom_matches Digit = is_digit" by (rule ext) simp
  have none: "?f k = None" if kn: "k < ?n" for k
  proof -
    obtain x xs where "drop k s = x # xs" "is_digit x"
      using drop_in_takeWhile [OF kn] by blast
    then show ?thesis by auto
  qed
  have fn: "?f ?n =
      (case dropWhile is_digit s of
         [] \<Rightarrow> None
       | x # r \<Rightarrow> if x = CHR ''.'' then map_option (Cons 1) (match_pieces ps r) else None)"
  proof (cases "dropWhile is_digit s")
    case Nil
    show ?thesis unfolding drop_length_takeWhile Nil by simp
  next
    case (Cons x r)
    show ?thesis unfolding drop_length_takeWhile Cons by simp
  qed
  have n1: "1 \<le> ?n \<longleftrightarrow> takeWhile is_digit s \<noteq> []"
    by (simp add: Suc_le_eq)
  have "match_pieces (Plus Digit # One (Lit CHR ''.'') # ps) s = try_counts ?f 1 ?n"
    by (simp add: am)
  also have "\<dots> = (if 1 \<le> ?n then map_option (Cons ?n) (?f ?n) else None)"
    by (rule try_counts_greedy) (rule none)
  finally have eq: "match_pieces (Plus Digit # One (Lit CHR ''.'') # ps) s =
      (if 1 \<le> ?n then map_option (Cons ?n) (?f ?n) else None)" .
  show ?thesis
  proof (cases "dropWhile is_digit s")
    case Nil
    show ?thesis unfolding eq fn Nil by simp
  next
    case (Cons x r)
    show ?thesis unfolding eq fn n1 Cons by (simp add: option.map_comp comp_def)
  qed
qed

lemma match_star_last: "match_pieces [Star a] s = Some [length (takeWhile (atom_matches a) s)]"
  by (simp add: try_counts_first)

lemma match_plus_digit_star:
  "match_pieces [Plus Digit, Star Any_char] s =
     (if takeWhile is_digit s = [] then None
      else Some [length (takeWhile is_digit s),
                 length (takeWhile (atom_matches Any_char) (dropWhile is_digit s))])"
proof -
  have am: "atom_matches Digit = is_digit" by (rule ext) simp
  show ?thesis
  proof (cases "takeWhile is_digit s = []")
    case True
    then show ?thesis by (simp add: am)
  next
    case False
    then have "1 \<le> length (takeWhile is_digit s)"
      by (simp add: Suc_le_eq)
    then show ?thesis
      using False
      by (simp add: am try_counts_first [where r = "[length (takeWhile (atom_matches Any_char) (dropWhile is_digit s))]"]
            drop_length_takeWhile del: match_pieces.simps(4) add: match_star_last)
  qed
qed

lemma take_triplet:
  "take (length a + (1 + (length b + (1 + length c)))) (a @ CHR ''.'' # b @ CHR ''.'' # c @ r) =
     a @ CHR ''.'' # b @ CHR ''.'' # c"
  by simp

lemma re_match_release:
  "re_match_group1 release_group release_rest v = leading_triplet v"
proof -
  define a where "a = takeWhile is_digit v"
  define r1 where "r1 = dropWhile is_digit v"
  define b where "b = takeWhile is_digit (tl r1)"
  define r2 where "r2 = dropWhile is_digit (tl r1)"
  define c where "c = takeWhile is_digit (tl r2)"
  define r3 where "r3 = dropWhile is_digit (tl r2)"
  have v: "v = a @ r1" and t1: "tl r1 = b @ r2" and t2: "tl r2 = c @ r3"
    by (simp_all add: a_def r1_def b_def r2_def c_def r3_def)
  have lt: "leading_triplet v =
      (if a \<noteq> [] \<and> r1 \<noteq> [] \<and> hd r1 = CHR ''.'' \<and> b \<noteq> [] \<and> r2 \<noteq> [] \<and> hd r2 = CHR ''.'' \<and> c \<noteq> []
       then Some (a @ ''.'' @ b @ ''.'' @ c) else None)"
    by (simp add: leading_triplet_def Let_def a_def r1_def b_def r2_def c_def)
  have m: "match_pieces (release_group @ release_rest) v =
      (if a \<noteq> [] \<and> r1 \<noteq> [] \<and> hd r1 = CHR ''.'' \<and> b \<noteq> [] \<and> r2 \<noteq> [] \<and> hd r2 = CHR ''.'' \<and> c \<noteq> []
       then Some [length a, 1, length b, 1, length c, length (takeWhile (atom_matches Any_char) r3)]
       else None)"
    unfolding release_group_def release_rest_def append.simps
      match_plus_digit_dot match_plus_digit_star
    by (simp add: a_def r1_def b_def r2_def c_def r3_def)
  show ?thesis
  proof (cases "a \<noteq> [] \<and> r1 \<noteq> [] \<and> hd r1 = CHR ''.'' \<and> b \<noteq> [] \<and> r2 \<noteq> [] \<and> hd r2 = CHR ''.'' \<and> c \<noteq> []")
    case False
    then show ?thesis
      unfolding re_match_group1_def m lt by auto
  next
    case True
    then have "r1 = CHR ''.'' # b @ r2" "r2 = CHR ''.'' # c @ r3"
      using t1 t2 by (cases r1; cases r2; simp)+
    then have "v = a @ CHR ''.'' # b @ CHR ''.'' # c @ r3"
      using v by simp
    then have "take (length a + (1 + (length b + (1 + length c)))) v = a @ CHR ''.'' # b @ CHR ''.'' # c"
      using take_triplet by simp
    then show ?thesis
      unfolding re_match_group1_def m lt using True
      by (simp add: release_group_def)
  qed
qed

lemma get_release_version_eq:
  "get_release_version v =
     (case leading_triplet v of None \<Rightarrow> Inl (Malformed_version v) | Some r \<Rightarrow> Inr r)"
  by (simp add: get_release_version_def re_match_release)

lemma takeWhile_digits_dot:
  "\<forall>x\<in>set a. is_digit x \<Longrightarrow> takeWhile is_digit (a @ CHR ''.'' # r) = a"
  by simp

lemma dropWhile_digits_dot:
  "\<forall>x\<in>set a. is_digit x \<Longrightarrow> dropWhile is_digit (a @ CHR ''.'' # r) = CHR ''.'' # r"
  by simp

lemma leading_triplet_append:
  assumes "a \<noteq> []" "b \<noteq> []" "c \<noteq> []"
    and "\<forall>x\<in>set a. is_digit x" "\<forall>x\<in>set b. is_digit x" "\<forall>x\<in>set c. is_digit x"
  shows "leading_triplet (a @ ''.'' @ b @ ''.'' @ c @ rest) =
           Some (a @ ''.'' @ b @ ''.'' @ c @ takeWhile is_digit rest)"
  using assms
  by (simp add: leading_triplet_def Let_def takeWhile_digits_dot dropWhile_digits_dot)

lemma leading_triplet_SomeD:
  assumes "leading_triplet v = Some r"
  shows "\<exists>a b c rest. a \<noteq> [] \<and> b \<noteq> [] \<and> c \<noteq> [] \<and> (\<forall>x\<in>set (a @ b @ c). is_digit x) \<and>
           (rest = [] \<or> \<not> is_digit (hd rest)) \<and>
           v = a @ ''.'' @ b @ ''.'' @ c @ rest \<and> r = a @ ''.'' @ b @ ''.'' @ c"
proof -
  define a where "a = takeWhile is_digit v"
  define r1 where "r1 = dropWhile is_digit v"
  define b where "b = takeWhile is_digit (tl r1)"
  define r2 where "r2 = dropWhile is_digit (tl r1)"
  define c where "c = takeWhile is_digit (tl r2)"
  define r3 where "r3 = dropWhile is_digit (tl r2)"
  have v: "v = a @ r1" and t1: "tl r1 = b @ r2" and t2: "tl r2 = c @ r3"
    by (simp_all add: a_def r1_def b_def r2_def c_def r3_def)
  have lt: "leading_triplet v =
      (if a \<noteq> [] \<and> r1 \<noteq> [] \<and> hd r1 = CHR ''.'' \<and> b \<noteq> [] \<and> r2 \<noteq> [] \<and> hd r2 = CHR ''.'' \<and> c \<noteq> []
       then Some (a @ ''.'' @ b @ ''.'' @ c) else None)"
    by (simp add: leading_triplet_def Let_def a_def r1_def b_def r2_def c_def)
  from assms lt have ok: "a \<noteq> []" "r1 \<noteq> []" "hd r1 = CHR ''.''" "b \<noteq> []" "r2 \<noteq> []" "hd r2 = CHR ''.''" "c \<noteq> []"
    and r: "r = a @ ''.'' @ b @ ''.'' @ c"
    by (auto split: if_splits)
  have "r1 = CHR ''.'' # b @ r2" "r2 = CHR ''.'' # c @ r3"
    using t1 t2 ok by (cases r1; cases r2; simp)+
  then have veq: "v = a @ ''.'' @ b @ ''.'' @ c @ r3"
    using v by simp
  have dig: "\<forall>x\<in>set (a @ b @ c). is_digit x"
    by (auto simp: a_def b_def c_def dest: set_takeWhileD)
  have "r3 = [] \<or> \<not> is_digit (hd r3)"
    unfolding r3_def by (metis hd_dropWhile)
  with ok veq r dig show ?thesis by blast
qed

lemma has_release_prefix_iff: "has_release_prefix v \<longleftrightarrow> leading_triplet v \<noteq> None"
proof
  assume "has_release_prefix v"
  then obtain a b c rest where "a \<noteq> []" "b \<noteq> []" "c \<noteq> []"
    "\<forall>x\<in>set (a @ b @ c). is_digit x" "v = a @ ''.'' @ b @ ''.'' @ c @ rest"
    unfolding has_release_prefix_def by blast
  then show "leading_triplet v \<noteq> None"
    using leading_triplet_append [of a b c rest] by auto
next
  assume "leading_triplet v \<noteq> None"
  then obtain r where "leading_triplet v = Some r" by blast
  from leading_triplet_SomeD [OF this] show "has_release_prefix v"
    unfolding has_release_prefix_def by blast
qed

lemma leading_triplet_idem: "leading_triplet v = Some r \<Longrightarrow> leading_triplet r = Some r"
proof -
  assume "leading_triplet v = Some r"
  from leading_triplet_SomeD [OF this] obtain a b c where
    "a \<noteq> []" "b \<noteq> []" "c \<noteq> []" "\<forall>x\<in>set (a @ b @ c). is_digit x" "r = a @ ''.'' @ b @ ''.'' @ c"
    by blast
  then show ?thesis
    using leading_triplet_append [of a b c "[]"] by simp
qed

section \<open>Candidate selection\<close>

lemma collect_parcels_eq:
  "collect_parcels ps (act, cand) =
     (act @ kudu_activated ps, cand @ kudu_candidates ps)"
  by (induction ps arbitrary: act cand) (simp_all add: kudu_activated_def kudu_candidates_def)

lemma max_by_key_mem: "max_by_key key m xs \<in> set (m # xs)"
  by (induction xs arbitrary: m) (simp, fastforce)

lemma max_by_key_ge_init: "key m \<le> key (max_by_key key m xs)"
proof (induction xs arbitrary: m)
  case Nil
  show ?case by simp
next
  case (Cons x xs)
  show ?case
    using Cons [of "if key m < key x then x else m"]
    by (simp split: if_splits)
qed

lemma max_by_key_ge: "x \<in> set (m # xs) \<Longrightarrow> key x \<le> key (max_by_key key m xs)"
proof (induction xs arbitrary: m)
  case Nil
  then show ?case by simp
next
  case (Cons y ys)
  show ?case
  proof (cases "x = m \<or> x = y")
    case True
    have "key m \<le> key (max_by_key key (if key m < key y then y else m) ys)"
         "key y \<le> key (max_by_key key (if key m < key y then y else m) ys)"
      using max_by_key_ge_init [of key "if key m < key y then y else m" ys]
      by (auto split: if_splits)
    with True show ?thesis by auto
  next
    case False
    with Cons.prems have "x \<in> set ys" by simp
    then show ?thesis
      using Cons.IH [of "if key m < key y then y else m"] by simp
  qed
qed

lemma max_by_key_greatest:
  assumes "b \<in> set (m # xs)" and "\<forall>a\<in>set (m # xs). key a \<le> key b"
  shows "key (max_by_key key m xs) = key b"
  using assms max_by_key_mem [of key m xs] max_by_key_ge [of b m xs key]
  by (meson order_antisym)

lemma filter_candidates_base_bad:
  assumes "leading_triplet (version g) = None" and "cs \<noteq> []"
  shows "filter_candidates g cs =
           Inl (Malformed_version
                  (if leading_triplet (version (hd cs)) = None then version (hd cs)
                   else version g))"
  using assms
  by (cases cs)
     (auto simp: release_versions_match_def get_release_version_eq split: option.splits)

lemma filter_candidates_base_ok:
  assumes "leading_triplet (version g) = Some r"
  shows "filter_candidates g cs =
           (case find (\<lambda>p. leading_triplet (version p) = None) cs of
              Some p \<Rightarrow> Inl (Malformed_version (version p))
            | None \<Rightarrow>
                Inr (filter (\<lambda>p. leading_triplet (version p) = Some r \<and> version g < version p) cs))"
  using assms
  by (induction cs)
     (auto simp: release_versions_match_def get_release_version_eq split: option.splits)

lemma is_upgrade_of_iff:
  "is_upgrade_of b p \<longleftrightarrow>
     (\<exists>r. leading_triplet (version p) = Some r \<and> leading_triplet (version b) = Some r) \<and>
     version b < version p"
  by (auto simp: is_upgrade_of_def get_release_version_eq split: option.splits)

lemma filter_candidates_version:
  "version g = version g' \<Longrightarrow> filter_candidates g cs = filter_candidates g' cs"
  by (induction cs) (simp_all add: release_versions_match_def split: sum.splits)

lemma selection_by_base:
  assumes b: "b \<in> set (kudu_activated (get_all_parcels c))"
    and top: "\<forall>a\<in>set (kudu_activated (get_all_parcels c)). version a \<le> version b"
  shows "get_best_upgrade_candidate_parcel c w =
           (case filter_candidates b (kudu_candidates (get_all_parcels c)) of
              Inl e \<Rightarrow> (Inl e, w)
            | Inr [] \<Rightarrow> (Inl (No_upgrade_candidates (product_id b) (version b)), w)
            | Inr (k # ks) \<Rightarrow>
                (Inr (max_by_key version k ks),
                 emit (Print (Chose_parcel (product_id (max_by_key version k ks))
                                (version (max_by_key version k ks))
                                (stage (max_by_key version k ks)))) w))"
proof -
  from b obtain a as where act: "kudu_activated (get_all_parcels c) = a # as"
    by (cases "kudu_activated (get_all_parcels c)") auto
  define g where "g = max_by_key version a as"
  have gv: "version g = version b"
    unfolding g_def using b top act by (simp add: max_by_key_greatest)
  have "g \<in> set (kudu_activated (get_all_parcels c))"
    unfolding g_def act by (rule max_by_key_mem)
  then have gp: "product_id g = product_id b"
    using b by (simp add: kudu_activated_def)
  have fc: "filter_candidates g cs = filter_candidates b cs" for cs
    by (rule filter_candidates_version) (rule gv)
  show ?thesis
    by (simp add: get_best_upgrade_candidate_parcel_def collect_parcels_eq act
          g_def [symmetric] fc gv gp Let_def split: sum.splits list.splits)
qed

lemma selection_no_activated:
  assumes "kudu_activated (get_all_parcels c) = []"
  shows "get_best_upgrade_candidate_parcel c w = (Inl No_activated_parcels, w)"
  using assms by (simp add: get_best_upgrade_candidate_parcel_def collect_parcels_eq)

lemma find_malformed_None:
  "\<forall>p\<in>set cs. has_release_prefix (version p) \<Longrightarrow>
   find (\<lambda>p. leading_triplet (version p) = None) cs = None"
  by (simp add: find_None_iff has_release_prefix_iff)

lemma filter_candidates_well_formed:
  assumes "\<forall>p\<in>set cs. has_release_prefix (version p)"
    and "has_release_prefix (version b)"
  shows "filter_candidates b cs = Inr (filter (is_upgrade_of b) cs)"
proof -
  from assms(2) obtain r where r: "leading_triplet (version b) = Some r"
    by (auto simp: has_release_prefix_iff)
  have "filter (\<lambda>p. leading_triplet (version p) = Some r \<and> version b < version p) cs =
        filter (is_upgrade_of b) cs"
    by (rule filter_cong) (auto simp: is_upgrade_of_iff r)
  then show ?thesis
    by (simp add: filter_candidates_base_ok [OF r] find_malformed_None [OF assms(1)])
qed

lemma is_upgrade_of_base_well_formed: "is_upgrade_of b p \<Longrightarrow> has_release_prefix (version b)"
  by (auto simp: is_upgrade_of_iff has_release_prefix_iff)

section \<open>Release extraction (C8)\<close>

lemma leading_triplet_example: "leading_triplet ''1.4.0-1.cdh5.12.0.p0.814'' = Some ''1.4.0''"
  by (simp add: leading_triplet_def is_digit_def)

lemma has_release_prefix_code:
  "has_release_prefix v \<longleftrightarrow> (case leading_triplet v of None \<Rightarrow> False | Some _ \<Rightarrow> True)"
  by (simp add: has_release_prefix_iff split: option.splits)

text \<open>
  Claim C8.  Release extraction returns the leading triplet of a version string:
  \<^verbatim>\<open>"1.4.0-1.cdh5.12.0.p0.814"\<close> gives \<^verbatim>\<open>"1.4.0"\<close>.  On every string that starts with digits, a dot,
  digits, a dot and digits it returns that prefix, with the third run of digits taken whole, and
  extracting again from the result gives the result back.  On every other string it fails with
  the malformed-version error.
\<close>

theorem release_extraction:
  "get_release_version ''1.4.0-1.cdh5.12.0.p0.814'' = Inr ''1.4.0'' \<and>
   (has_release_prefix v \<longrightarrow>
      (\<exists>a b c rest. a \<noteq> [] \<and> b \<noteq> [] \<and> c \<noteq> [] \<and> (\<forall>x\<in>set (a @ b @ c). is_digit x) \<and>
         (rest = [] \<or> \<not> is_digit (hd rest)) \<and>
         v = a @ ''.'' @ b @ ''.'' @ c @ rest \<and>
         get_release_version v = Inr (a @ ''.'' @ b @ ''.'' @ c) \<and>
         get_release_version (a @ ''.'' @ b @ ''.'' @ c) = Inr (a @ ''.'' @ b @ ''.'' @ c))) \<and>
   (\<not> has_release_prefix v \<longrightarrow> get_release_version v = Inl (Malformed_version v))"
proof (intro conjI impI)
  show "get_release_version ''1.4.0-1.cdh5.12.0.p0.814'' = Inr ''1.4.0''"
    by (simp add: get_release_version_eq leading_triplet_example)
next
  assume "has_release_prefix v"
  then obtain r where r: "leading_triplet v = Some r"
    by (auto simp: has_release_prefix_iff)
  from leading_triplet_SomeD [OF r] obtain a b c rest where
    parts: "a \<noteq> []" "b \<noteq> []" "c \<noteq> []" "\<forall>x\<in>set (a @ b @ c). is_digit x"
      "rest = [] \<or> \<not> is_digit (hd rest)"
      "v = a @ ''.'' @ b @ ''.'' @ c @ rest" "r = a @ ''.'' @ b @ ''.'' @ c"
    by blast
  have "get_release_version v = Inr r"
    by (simp add: get_release_version_eq r)
  moreover have "get_release_version r = Inr r"
    by (simp add: get_release_version_eq leading_triplet_idem [OF r])
  ultimately show "\<exists>a b c rest. a \<noteq> [] \<and> b \<noteq> [] \<and> c \<noteq> [] \<and> (\<forall>x\<in>set (a @ b @ c). is_digit x) \<and>
         (rest = [] \<or> \<not> is_digit (hd rest)) \<and>
         v = a @ ''.'' @ b @ ''.'' @ c @ rest \<and>
         get_release_version v = Inr (a @ ''.'' @ b @ ''.'' @ c) \<and>
         get_release_version (a @ ''.'' @ b @ ''.'' @ c) = Inr (a @ ''.'' @ b @ ''.'' @ c)"
    using parts by blast
next
  assume "\<not> has_release_prefix v"
  then show "get_release_version v = Inl (Malformed_version v)"
    by (simp add: get_release_version_eq has_release_prefix_iff)
qed

theorem release_extraction_witness:
  "has_release_prefix ''1.4.0-1.cdh5.12.0.p0.814'' \<and>
   get_release_version ''1.4.0-1.cdh5.12.0.p0.814'' = Inr ''1.4.0'' \<and>
   get_release_version ''1.4.0'' = Inr ''1.4.0'' \<and>
   \<not> has_release_prefix ''v1.4.0'' \<and>
   get_release_version ''v1.4.0'' = Inl (Malformed_version ''v1.4.0'')"
proof -
  have ok: "has_release_prefix ''1.4.0-1.cdh5.12.0.p0.814''"
    by (simp add: has_release_prefix_code leading_triplet_def is_digit_def)
  have bad: "\<not> has_release_prefix ''v1.4.0''"
    by (simp add: has_release_prefix_code leading_triplet_def is_digit_def)
  from ok release_extraction [of "''1.4.0-1.cdh5.12.0.p0.814''"]
  obtain a b c rest where
    "get_release_version ''1.4.0-1.cdh5.12.0.p0.814'' = Inr (a @ ''.'' @ b @ ''.'' @ c)"
    "get_release_version (a @ ''.'' @ b @ ''.'' @ c) = Inr (a @ ''.'' @ b @ ''.'' @ c)"
    "get_release_version ''1.4.0-1.cdh5.12.0.p0.814'' = Inr ''1.4.0''"
    by blast
  then have "get_release_version ''1.4.0'' = Inr ''1.4.0''"
    by simp
  moreover have "get_release_version ''v1.4.0'' = Inl (Malformed_version ''v1.4.0'')"
    using bad release_extraction [of "''v1.4.0''"] by blast
  ultimately show ?thesis
    using ok bad release_extraction [of "''v1.4.0''"] by blast
qed

section \<open>Selection without a baseline (C6)\<close>

text \<open>
  Claim C6.  When no KUDU parcel of the cluster is at stage \<^verbatim>\<open>ACTIVATED\<close>, selection fails with
  the no-activated-parcel error, whatever the other parcels are, and prints nothing.
\<close>

theorem no_activated_parcel_fails:
  assumes "\<forall>p\<in>set (get_all_parcels c). product_id p = ''KUDU'' \<longrightarrow> stage p \<noteq> ''ACTIVATED''"
  shows "get_best_upgrade_candidate_parcel c w = (Inl No_activated_parcels, w)"
proof -
  have "kudu_activated (get_all_parcels c) = []"
    using assms by (auto simp: kudu_activated_def filter_empty_conv)
  then show ?thesis by (rule selection_no_activated)
qed

theorem no_activated_parcel_fails_witness:
  "kudu_activated
     [mk_parcel ''KUDU'' ''1.4.0-2'' ''DOWNLOADED'', mk_parcel ''KUDU'' ''nightly'' ''DISTRIBUTED'',
      mk_parcel ''IMPALA'' ''2.9.0-1'' ''ACTIVATED''] = [] \<and>
   get_best_upgrade_candidate_parcel
     (mk_cluster
        [mk_parcel ''KUDU'' ''1.4.0-2'' ''DOWNLOADED'', mk_parcel ''KUDU'' ''nightly'' ''DISTRIBUTED'',
         mk_parcel ''IMPALA'' ''2.9.0-1'' ''ACTIVATED'']
        (\<lambda>_. mk_parcel ''KUDU'' ''1.4.0-2'' ''DOWNLOADED'')) start =
     (Inl No_activated_parcels, start)"
  using no_activated_parcel_fails
    [of "mk_cluster
           [mk_parcel ''KUDU'' ''1.4.0-2'' ''DOWNLOADED'',
            mk_parcel ''KUDU'' ''nightly'' ''DISTRIBUTED'',
            mk_parcel ''IMPALA'' ''2.9.0-1'' ''ACTIVATED'']
           (\<lambda>_. mk_parcel ''KUDU'' ''1.4.0-2'' ''DOWNLOADED'')" start]
  by (simp add: kudu_activated_def)

section \<open>Selection with a baseline (C1, C7, C2)\<close>

lemma has_release_prefix_simps:
  "has_release_prefix ''1.4.0-1'' = True"
  "has_release_prefix ''1.4.0-2'' = True"
  "has_release_prefix ''1.4.0-3'' = True"
  "has_release_prefix ''1.5.0-1'' = True"
  "has_release_prefix ''nightly'' = False"
  by (simp_all add: has_release_prefix_code leading_triplet_def is_digit_def)

lemma is_upgrade_of_code:
  "is_upgrade_of b p \<longleftrightarrow>
     leading_triplet (version p) \<noteq> None \<and>
     leading_triplet (version p) = leading_triplet (version b) \<and> version b < version p"
  by (auto simp: is_upgrade_of_iff)

lemma main_selection_fails:
  assumes "find_cluster a (cluster_arg ar) w0 = (Inr c, w)"
    and "get_best_upgrade_candidate_parcel c w = (Inl e, w')"
  shows "main a ar w0 = (Inl e, w')"
  using assms by (simp add: main_def and_then_def)

text \<open>
  Claim C1, amended.  Let \<open>b\<close> be a KUDU parcel at stage \<^verbatim>\<open>ACTIVATED\<close> whose version is the
  greatest among the activated KUDU parcels.  If the version of every KUDU parcel that is not
  activated starts with a release triplet, and at least one such parcel has the release of \<open>b\<close>
  and a greater version, then selection prints the parcel it chose and returns it: a parcel that
  is not activated, has the release of \<open>b\<close> and a greater version, and whose version is the
  greatest among the parcels of that kind.  As the claim is written, without the condition on
  the other versions, it fails: a parcel with a malformed version next to a good candidate makes
  selection raise the malformed-version error.
\<close>

theorem best_candidate_is_greatest:
  assumes "b \<in> set (kudu_activated (get_all_parcels c))"
    and "\<forall>a\<in>set (kudu_activated (get_all_parcels c)). version a \<le> version b"
    and "\<forall>p\<in>set (kudu_candidates (get_all_parcels c)). has_release_prefix (version p)"
    and "\<exists>p\<in>set (kudu_candidates (get_all_parcels c)). is_upgrade_of b p"
  shows "\<exists>g. get_best_upgrade_candidate_parcel c w =
               (Inr g, emit (Print (Chose_parcel (product_id g) (version g) (stage g))) w) \<and>
             g \<in> set (kudu_candidates (get_all_parcels c)) \<and> is_upgrade_of b g \<and>
             (\<forall>p\<in>set (kudu_candidates (get_all_parcels c)).
                is_upgrade_of b p \<longrightarrow> version p \<le> version g)"
proof -
  let ?cs = "kudu_candidates (get_all_parcels c)"
  from assms(4) have wb: "has_release_prefix (version b)"
    by (auto dest: is_upgrade_of_base_well_formed)
  have fc: "filter_candidates b ?cs = Inr (filter (is_upgrade_of b) ?cs)"
    by (rule filter_candidates_well_formed [OF assms(3) wb])
  from assms(4) obtain k ks where kept: "filter (is_upgrade_of b) ?cs = k # ks"
    by (cases "filter (is_upgrade_of b) ?cs") (auto simp: filter_empty_conv)
  define g where "g = max_by_key version k ks"
  have res: "get_best_upgrade_candidate_parcel c w =
      (Inr g, emit (Print (Chose_parcel (product_id g) (version g) (stage g))) w)"
    by (simp add: selection_by_base [OF assms(1,2)] fc kept g_def)
  have "g \<in> set (filter (is_upgrade_of b) ?cs)"
    unfolding kept g_def by (rule max_by_key_mem)
  then have mem: "g \<in> set ?cs" "is_upgrade_of b g" by simp_all
  have "version p \<le> version g" if "p \<in> set ?cs" "is_upgrade_of b p" for p
  proof -
    from that have "p \<in> set (k # ks)" by (simp add: kept [symmetric])
    then show ?thesis unfolding g_def by (rule max_by_key_ge)
  qed
  with res mem show ?thesis by blast
qed

theorem best_candidate_is_greatest_witness:
  "get_best_upgrade_candidate_parcel
     (mk_cluster
        [mk_parcel ''KUDU'' ''1.4.0-2'' ''DOWNLOADED'', mk_parcel ''KUDU'' ''1.4.0-1'' ''ACTIVATED'',
         mk_parcel ''KUDU'' ''1.4.0-3'' ''AVAILABLE_REMOTELY'', mk_parcel ''KUDU'' ''1.5.0-1'' ''DOWNLOADED'',
         mk_parcel ''IMPALA'' ''nightly'' ''DOWNLOADED'']
        (\<lambda>_. mk_parcel ''KUDU'' ''1.4.0-3'' ''AVAILABLE_REMOTELY'')) start =
     (Inr (mk_parcel ''KUDU'' ''1.4.0-3'' ''AVAILABLE_REMOTELY''),
      \<lparr>long_bits = 64, polls = 0, trace = [Print (Chose_parcel ''KUDU'' ''1.4.0-3'' ''AVAILABLE_REMOTELY'')]\<rparr>)"
proof -
  let ?ps = "[mk_parcel ''KUDU'' ''1.4.0-2'' ''DOWNLOADED'', mk_parcel ''KUDU'' ''1.4.0-1'' ''ACTIVATED'',
         mk_parcel ''KUDU'' ''1.4.0-3'' ''AVAILABLE_REMOTELY'', mk_parcel ''KUDU'' ''1.5.0-1'' ''DOWNLOADED'',
         mk_parcel ''IMPALA'' ''nightly'' ''DOWNLOADED'']"
  let ?c = "mk_cluster ?ps (\<lambda>_. mk_parcel ''KUDU'' ''1.4.0-3'' ''AVAILABLE_REMOTELY'')"
  let ?b = "mk_parcel ''KUDU'' ''1.4.0-1'' ''ACTIVATED''"
  have act: "kudu_activated (get_all_parcels ?c) = [?b]"
    by (simp add: kudu_activated_def)
  have cand: "kudu_candidates (get_all_parcels ?c) =
      [mk_parcel ''KUDU'' ''1.4.0-2'' ''DOWNLOADED'', mk_parcel ''KUDU'' ''1.4.0-3'' ''AVAILABLE_REMOTELY'',
       mk_parcel ''KUDU'' ''1.5.0-1'' ''DOWNLOADED'']"
    by (simp add: kudu_candidates_def)
  have up: "is_upgrade_of ?b (mk_parcel ''KUDU'' ''1.4.0-2'' ''DOWNLOADED'')"
       "is_upgrade_of ?b (mk_parcel ''KUDU'' ''1.4.0-3'' ''AVAILABLE_REMOTELY'')"
       "\<not> is_upgrade_of ?b (mk_parcel ''KUDU'' ''1.5.0-1'' ''DOWNLOADED'')"
    by (simp_all add: is_upgrade_of_code leading_triplet_def is_digit_def)
  have h1: "?b \<in> set (kudu_activated (get_all_parcels ?c))"
    unfolding act by simp
  have h2: "\<forall>a\<in>set (kudu_activated (get_all_parcels ?c)). version a \<le> version ?b"
    unfolding act by simp
  have h3: "\<forall>p\<in>set (kudu_candidates (get_all_parcels ?c)). has_release_prefix (version p)"
    unfolding cand by (simp add: has_release_prefix_simps)
  have h4: "\<exists>p\<in>set (kudu_candidates (get_all_parcels ?c)). is_upgrade_of ?b p"
    unfolding cand using up by simp
  from best_candidate_is_greatest [OF h1 h2 h3 h4, of start]
  obtain g where g: "get_best_upgrade_candidate_parcel ?c start =
               (Inr g, emit (Print (Chose_parcel (product_id g) (version g) (stage g))) start)"
    and mem: "g \<in> set (kudu_candidates (get_all_parcels ?c))" "is_upgrade_of ?b g"
    and top: "\<forall>p\<in>set (kudu_candidates (get_all_parcels ?c)).
                is_upgrade_of ?b p \<longrightarrow> version p \<le> version g"
    by blast
  from mem up have "g = mk_parcel ''KUDU'' ''1.4.0-2'' ''DOWNLOADED'' \<or>
      g = mk_parcel ''KUDU'' ''1.4.0-3'' ''AVAILABLE_REMOTELY''"
    unfolding cand by auto
  moreover have "version (mk_parcel ''KUDU'' ''1.4.0-3'' ''AVAILABLE_REMOTELY'') \<le> version g"
    using top up unfolding cand by simp
  ultimately have "g = mk_parcel ''KUDU'' ''1.4.0-3'' ''AVAILABLE_REMOTELY''"
    by auto
  with g show ?thesis by (simp add: emit_def)
qed

theorem malformed_candidate_aborts_counterexample:
  "kudu_activated
     [mk_parcel ''KUDU'' ''1.4.0-1'' ''ACTIVATED'', mk_parcel ''KUDU'' ''1.4.0-2'' ''DOWNLOADED'',
      mk_parcel ''KUDU'' ''nightly'' ''DOWNLOADED''] = [mk_parcel ''KUDU'' ''1.4.0-1'' ''ACTIVATED''] \<and>
   kudu_candidates
     [mk_parcel ''KUDU'' ''1.4.0-1'' ''ACTIVATED'', mk_parcel ''KUDU'' ''1.4.0-2'' ''DOWNLOADED'',
      mk_parcel ''KUDU'' ''nightly'' ''DOWNLOADED''] =
     [mk_parcel ''KUDU'' ''1.4.0-2'' ''DOWNLOADED'', mk_parcel ''KUDU'' ''nightly'' ''DOWNLOADED''] \<and>
   is_upgrade_of (mk_parcel ''KUDU'' ''1.4.0-1'' ''ACTIVATED'')
     (mk_parcel ''KUDU'' ''1.4.0-2'' ''DOWNLOADED'') \<and>
   get_best_upgrade_candidate_parcel
     (mk_cluster
        [mk_parcel ''KUDU'' ''1.4.0-1'' ''ACTIVATED'', mk_parcel ''KUDU'' ''1.4.0-2'' ''DOWNLOADED'',
         mk_parcel ''KUDU'' ''nightly'' ''DOWNLOADED'']
        (\<lambda>_. mk_parcel ''KUDU'' ''1.4.0-2'' ''DOWNLOADED'')) start =
     (Inl (Malformed_version ''nightly''), start)"
  by (simp add: kudu_activated_def kudu_candidates_def is_upgrade_of_code
        get_best_upgrade_candidate_parcel_def release_versions_match_def
        get_release_version_eq leading_triplet_def is_digit_def)

text \<open>
  Claim C7, amended.  With \<open>b\<close> as above, if the version of every KUDU parcel that is not
  activated starts with a release triplet, the version of \<open>b\<close> does too when there is such a
  parcel, and none of them has the release of \<open>b\<close> and a greater version, then selection fails
  with the no-candidate error carrying the product and version of \<open>b\<close>.  As the claim is
  written it fails: with a single candidate of malformed version the error is the
  malformed-version one.
\<close>

theorem no_candidate_fails:
  assumes "b \<in> set (kudu_activated (get_all_parcels c))"
    and "\<forall>a\<in>set (kudu_activated (get_all_parcels c)). version a \<le> version b"
    and "\<forall>p\<in>set (kudu_candidates (get_all_parcels c)). has_release_prefix (version p)"
    and "kudu_candidates (get_all_parcels c) \<noteq> [] \<longrightarrow> has_release_prefix (version b)"
    and "\<forall>p\<in>set (kudu_candidates (get_all_parcels c)). \<not> is_upgrade_of b p"
  shows "get_best_upgrade_candidate_parcel c w =
           (Inl (No_upgrade_candidates (product_id b) (version b)), w)"
proof (cases "kudu_candidates (get_all_parcels c) = []")
  case True
  then show ?thesis
    by (simp add: selection_by_base [OF assms(1,2)])
next
  case False
  with assms(4) have wb: "has_release_prefix (version b)" by simp
  have "filter (is_upgrade_of b) (kudu_candidates (get_all_parcels c)) = []"
    using assms(5) by (simp add: filter_empty_conv)
  then show ?thesis
    by (simp add: selection_by_base [OF assms(1,2)]
          filter_candidates_well_formed [OF assms(3) wb])
qed

theorem no_candidate_fails_witness:
  "get_best_upgrade_candidate_parcel
     (mk_cluster
        [mk_parcel ''KUDU'' ''1.4.0-2'' ''ACTIVATED'', mk_parcel ''KUDU'' ''1.4.0-1'' ''DOWNLOADED'',
         mk_parcel ''KUDU'' ''1.5.0-1'' ''DOWNLOADED'']
        (\<lambda>_. mk_parcel ''KUDU'' ''1.4.0-1'' ''DOWNLOADED'')) start =
     (Inl (No_upgrade_candidates ''KUDU'' ''1.4.0-2''), start)"
proof -
  let ?ps = "[mk_parcel ''KUDU'' ''1.4.0-2'' ''ACTIVATED'', mk_parcel ''KUDU'' ''1.4.0-1'' ''DOWNLOADED'',
         mk_parcel ''KUDU'' ''1.5.0-1'' ''DOWNLOADED'']"
  let ?c = "mk_cluster ?ps (\<lambda>_. mk_parcel ''KUDU'' ''1.4.0-1'' ''DOWNLOADED'')"
  let ?b = "mk_parcel ''KUDU'' ''1.4.0-2'' ''ACTIVATED''"
  have act: "kudu_activated (get_all_parcels ?c) = [?b]"
    by (simp add: kudu_activated_def)
  have cand: "kudu_candidates (get_all_parcels ?c) =
      [mk_parcel ''KUDU'' ''1.4.0-1'' ''DOWNLOADED'', mk_parcel ''KUDU'' ''1.5.0-1'' ''DOWNLOADED'']"
    by (simp add: kudu_candidates_def)
  have up: "\<not> is_upgrade_of ?b (mk_parcel ''KUDU'' ''1.4.0-1'' ''DOWNLOADED'')"
       "\<not> is_upgrade_of ?b (mk_parcel ''KUDU'' ''1.5.0-1'' ''DOWNLOADED'')"
    by (simp_all add: is_upgrade_of_code leading_triplet_def is_digit_def)
  have h1: "?b \<in> set (kudu_activated (get_all_parcels ?c))"
    unfolding act by simp
  have h2: "\<forall>a\<in>set (kudu_activated (get_all_parcels ?c)). version a \<le> version ?b"
    unfolding act by simp
  have h3: "\<forall>p\<in>set (kudu_candidates (get_all_parcels ?c)). has_release_prefix (version p)"
    unfolding cand by (simp add: has_release_prefix_simps)
  have h4: "kudu_candidates (get_all_parcels ?c) \<noteq> [] \<longrightarrow> has_release_prefix (version ?b)"
    by (simp add: has_release_prefix_simps)
  have h5: "\<forall>p\<in>set (kudu_candidates (get_all_parcels ?c)). \<not> is_upgrade_of ?b p"
    unfolding cand using up by simp
  from no_candidate_fails [OF h1 h2 h3 h4 h5, of start] show ?thesis by simp
qed

theorem no_candidate_fails_counterexample:
  "kudu_activated
     [mk_parcel ''KUDU'' ''1.4.0-1'' ''ACTIVATED'', mk_parcel ''KUDU'' ''nightly'' ''DOWNLOADED''] =
     [mk_parcel ''KUDU'' ''1.4.0-1'' ''ACTIVATED''] \<and>
   kudu_candidates
     [mk_parcel ''KUDU'' ''1.4.0-1'' ''ACTIVATED'', mk_parcel ''KUDU'' ''nightly'' ''DOWNLOADED''] =
     [mk_parcel ''KUDU'' ''nightly'' ''DOWNLOADED''] \<and>
   \<not> is_upgrade_of (mk_parcel ''KUDU'' ''1.4.0-1'' ''ACTIVATED'')
       (mk_parcel ''KUDU'' ''nightly'' ''DOWNLOADED'') \<and>
   get_best_upgrade_candidate_parcel
     (mk_cluster
        [mk_parcel ''KUDU'' ''1.4.0-1'' ''ACTIVATED'', mk_parcel ''KUDU'' ''nightly'' ''DOWNLOADED'']
        (\<lambda>_. mk_parcel ''KUDU'' ''nightly'' ''DOWNLOADED'')) start =
     (Inl (Malformed_version ''nightly''), start) \<and>
   Malformed_version ''nightly'' \<noteq> No_upgrade_candidates ''KUDU'' ''1.4.0-1''"
  by (simp add: kudu_activated_def kudu_candidates_def is_upgrade_of_code
        get_best_upgrade_candidate_parcel_def release_versions_match_def
        get_release_version_eq leading_triplet_def is_digit_def)

text \<open>
  Claim C2, amended.  With \<open>b\<close> as above and at least one KUDU parcel that is not activated, if
  the version of \<open>b\<close> or of one of those parcels does not start with a release triplet, then
  selection fails with the malformed-version error for one of these strings, and the whole run
  ends there with that error.  As the claim is written it fails for the baseline: when no KUDU
  parcel but activated ones exists, the version of the baseline is never extracted, and a
  malformed one leads to the no-candidate error.
\<close>

theorem malformed_version_aborts:
  assumes "find_cluster a (cluster_arg ar) w0 = (Inr c, w)"
    and "b \<in> set (kudu_activated (get_all_parcels c))"
    and "\<forall>x\<in>set (kudu_activated (get_all_parcels c)). version x \<le> version b"
    and "kudu_candidates (get_all_parcels c) \<noteq> []"
    and "\<not> has_release_prefix (version b) \<or>
         (\<exists>p\<in>set (kudu_candidates (get_all_parcels c)). \<not> has_release_prefix (version p))"
  shows "\<exists>v. get_best_upgrade_candidate_parcel c w = (Inl (Malformed_version v), w) \<and>
             main a ar w0 = (Inl (Malformed_version v), w) \<and>
             \<not> has_release_prefix v \<and>
             (v = version b \<or> v \<in> version ` set (kudu_candidates (get_all_parcels c)))"
proof -
  let ?cs = "kudu_candidates (get_all_parcels c)"
  have "\<exists>v. filter_candidates b ?cs = Inl (Malformed_version v) \<and> \<not> has_release_prefix v \<and>
            (v = version b \<or> v \<in> version ` set ?cs)"
  proof (cases "leading_triplet (version b)")
    case None
    have "hd ?cs \<in> set ?cs" using assms(4) by simp
    then show ?thesis
      using None filter_candidates_base_bad [OF None assms(4)]
      by (auto simp: has_release_prefix_iff)
  next
    case (Some r)
    with assms(5) obtain q where "q \<in> set ?cs" "leading_triplet (version q) = None"
      by (auto simp: has_release_prefix_iff)
    then obtain p where p: "find (\<lambda>p. leading_triplet (version p) = None) ?cs = Some p"
      by (cases "find (\<lambda>p. leading_triplet (version p) = None) ?cs")
         (auto simp: find_None_iff)
    then have "p \<in> set ?cs" "leading_triplet (version p) = None"
      by (auto simp: find_Some_iff)
    then show ?thesis
      using filter_candidates_base_ok [OF Some, of ?cs] p
      by (auto simp: has_release_prefix_iff)
  qed
  then obtain v where v: "filter_candidates b ?cs = Inl (Malformed_version v)"
    and rest: "\<not> has_release_prefix v" "v = version b \<or> v \<in> version ` set ?cs"
    by blast
  have sel: "get_best_upgrade_candidate_parcel c w = (Inl (Malformed_version v), w)"
    by (simp add: selection_by_base [OF assms(2,3)] v)
  from main_selection_fails [OF assms(1) sel] sel rest show ?thesis by blast
qed

theorem malformed_version_aborts_witness:
  "main
     \<lparr>get_all_clusters =
        [mk_cluster
           [mk_parcel ''KUDU'' ''1.4.0-1'' ''ACTIVATED'', mk_parcel ''KUDU'' ''1.4.0-2'' ''DOWNLOADED'',
            mk_parcel ''KUDU'' ''nightly'' ''DOWNLOADED'']
           (\<lambda>_. mk_parcel ''KUDU'' ''1.4.0-2'' ''DOWNLOADED'')],
      get_cluster = (\<lambda>n. Inl (Api_error n))\<rparr>
     \<lparr>cluster_arg = None, max_time_per_stage = 120\<rparr> start =
     (Inl (Malformed_version ''nightly''),
      \<lparr>long_bits = 64, polls = 0, trace = [Print (Found_cluster ''Cluster 1'')]\<rparr>)"
proof -
  let ?ps = "[mk_parcel ''KUDU'' ''1.4.0-1'' ''ACTIVATED'', mk_parcel ''KUDU'' ''1.4.0-2'' ''DOWNLOADED'',
            mk_parcel ''KUDU'' ''nightly'' ''DOWNLOADED'']"
  let ?c = "mk_cluster ?ps (\<lambda>_. mk_parcel ''KUDU'' ''1.4.0-2'' ''DOWNLOADED'')"
  let ?a = "\<lparr>get_all_clusters = [?c], get_cluster = (\<lambda>n. Inl (Api_error n))\<rparr>"
  let ?ar = "\<lparr>cluster_arg = None, max_time_per_stage = 120\<rparr>"
  let ?w = "\<lparr>long_bits = 64, polls = 0, trace = [Print (Found_cluster ''Cluster 1'')]\<rparr>"
  let ?b = "mk_parcel ''KUDU'' ''1.4.0-1'' ''ACTIVATED''"
  have h0: "find_cluster ?a (cluster_arg ?ar) start = (Inr ?c, ?w)"
    by (simp add: find_cluster_def emit_def)
  have act: "kudu_activated (get_all_parcels ?c) = [?b]"
    by (simp add: kudu_activated_def)
  have cand: "kudu_candidates (get_all_parcels ?c) =
      [mk_parcel ''KUDU'' ''1.4.0-2'' ''DOWNLOADED'', mk_parcel ''KUDU'' ''nightly'' ''DOWNLOADED'']"
    by (simp add: kudu_candidates_def)
  have h1: "?b \<in> set (kudu_activated (get_all_parcels ?c))"
    unfolding act by simp
  have h2: "\<forall>x\<in>set (kudu_activated (get_all_parcels ?c)). version x \<le> version ?b"
    unfolding act by simp
  have h3: "kudu_candidates (get_all_parcels ?c) \<noteq> []"
    unfolding cand by simp
  have h4: "\<not> has_release_prefix (version ?b) \<or>
         (\<exists>p\<in>set (kudu_candidates (get_all_parcels ?c)). \<not> has_release_prefix (version p))"
    unfolding cand by (simp add: has_release_prefix_simps)
  from malformed_version_aborts [OF h0 h1 h2 h3 h4]
  obtain v where m: "main ?a ?ar start = (Inl (Malformed_version v), ?w)"
    and bad: "\<not> has_release_prefix v"
    and v: "v = version ?b \<or> v \<in> version ` set (kudu_candidates (get_all_parcels ?c))"
    by blast
  from v bad have "v = ''nightly''"
    unfolding cand by (auto simp: has_release_prefix_simps)
  with m show ?thesis by simp
qed

theorem malformed_version_aborts_counterexample:
  "kudu_activated [mk_parcel ''KUDU'' ''nightly'' ''ACTIVATED''] =
     [mk_parcel ''KUDU'' ''nightly'' ''ACTIVATED''] \<and>
   \<not> has_release_prefix ''nightly'' \<and>
   get_release_version ''nightly'' = Inl (Malformed_version ''nightly'') \<and>
   get_best_upgrade_candidate_parcel
     (mk_cluster [mk_parcel ''KUDU'' ''nightly'' ''ACTIVATED'']
        (\<lambda>_. mk_parcel ''KUDU'' ''nightly'' ''ACTIVATED'')) start =
     (Inl (No_upgrade_candidates ''KUDU'' ''nightly''), start)"
  by (simp add: kudu_activated_def has_release_prefix_simps
        get_best_upgrade_candidate_parcel_def release_versions_match_def
        get_release_version_eq leading_triplet_def is_digit_def)

section \<open>Cluster resolution (C9)\<close>

text \<open>
  Claim C9, amended.  When a name that is not the empty string is given, the result is the
  answer of the server's lookup of that name, whatever the list of clusters is, and nothing is
  printed.  When no name or the empty string is given: with no cluster the missing-cluster
  error, with more than one the ambiguous-cluster error, with exactly one that cluster, after
  its display name is printed.  As the claim is written it fails for the empty string, which is
  a name given on the command line but is false in \<^verbatim>\<open>if cluster_name:\<close>.
\<close>

theorem find_cluster_resolution:
  "(cluster_name = Some n \<and> n \<noteq> [] \<longrightarrow> find_cluster a cluster_name w = (get_cluster a n, w)) \<and>
   (cluster_name = None \<or> cluster_name = Some [] \<longrightarrow>
      (get_all_clusters a = [] \<longrightarrow> find_cluster a cluster_name w = (Inl No_clusters, w)) \<and>
      (1 < length (get_all_clusters a) \<longrightarrow>
         find_cluster a cluster_name w = (Inl Ambiguous_cluster, w)) \<and>
      (\<forall>c. get_all_clusters a = [c] \<longrightarrow>
         find_cluster a cluster_name w =
           (Inr c, emit (Print (Found_cluster (displayName c))) w)))"
  by (cases n) (auto simp: find_cluster_def Let_def)

theorem find_cluster_resolution_witness:
  "find_cluster
     \<lparr>get_all_clusters = [],
      get_cluster = (\<lambda>n. if n = ''prod'' then Inr (mk_cluster [] (\<lambda>_. mk_parcel ''KUDU'' ''1.4.0-1'' ''ACTIVATED''))
                          else Inl (Api_error n))\<rparr>
     (Some ''prod'') start =
     (Inr (mk_cluster [] (\<lambda>_. mk_parcel ''KUDU'' ''1.4.0-1'' ''ACTIVATED'')), start) \<and>
   find_cluster \<lparr>get_all_clusters = [], get_cluster = (\<lambda>n. Inl (Api_error n))\<rparr> None start =
     (Inl No_clusters, start) \<and>
   find_cluster
     \<lparr>get_all_clusters =
        [mk_cluster [] (\<lambda>_. mk_parcel ''KUDU'' ''1.4.0-1'' ''ACTIVATED''),
         mk_cluster [] (\<lambda>_. mk_parcel ''KUDU'' ''1.4.0-2'' ''ACTIVATED'')],
      get_cluster = (\<lambda>n. Inl (Api_error n))\<rparr> None start =
     (Inl Ambiguous_cluster, start) \<and>
   find_cluster
     \<lparr>get_all_clusters = [mk_cluster [] (\<lambda>_. mk_parcel ''KUDU'' ''1.4.0-1'' ''ACTIVATED'')],
      get_cluster = (\<lambda>n. Inl (Api_error n))\<rparr> None start =
     (Inr (mk_cluster [] (\<lambda>_. mk_parcel ''KUDU'' ''1.4.0-1'' ''ACTIVATED'')),
      \<lparr>long_bits = 64, polls = 0, trace = [Print (Found_cluster ''Cluster 1'')]\<rparr>)"
proof -
  let ?c1 = "mk_cluster [] (\<lambda>_. mk_parcel ''KUDU'' ''1.4.0-1'' ''ACTIVATED'')"
  let ?c2 = "mk_cluster [] (\<lambda>_. mk_parcel ''KUDU'' ''1.4.0-2'' ''ACTIVATED'')"
  let ?named = "\<lparr>get_all_clusters = [],
      get_cluster = (\<lambda>n. if n = ''prod'' then Inr ?c1 else Inl (Api_error n))\<rparr>"
  let ?none = "\<lparr>get_all_clusters = [], get_cluster = (\<lambda>n. Inl (Api_error n))\<rparr>"
  let ?two = "\<lparr>get_all_clusters = [?c1, ?c2], get_cluster = (\<lambda>n. Inl (Api_error n))\<rparr>"
  let ?one = "\<lparr>get_all_clusters = [?c1], get_cluster = (\<lambda>n. Inl (Api_error n))\<rparr>"
  have "find_cluster ?named (Some ''prod'') start = (Inr ?c1, start)"
    using find_cluster_resolution [of "Some ''prod''" "''prod''" ?named start] by simp
  moreover have "find_cluster ?none None start = (Inl No_clusters, start)"
    using find_cluster_resolution [of None "[]" ?none start] by simp
  moreover have "find_cluster ?two None start = (Inl Ambiguous_cluster, start)"
    using find_cluster_resolution [of None "[]" ?two start] by simp
  moreover have "find_cluster ?one None start =
      (Inr ?c1, \<lparr>long_bits = 64, polls = 0, trace = [Print (Found_cluster ''Cluster 1'')]\<rparr>)"
    using find_cluster_resolution [of None "[]" ?one start] by (simp add: emit_def)
  ultimately show ?thesis by blast
qed

theorem empty_cluster_name_counterexample:
  "find_cluster
     \<lparr>get_all_clusters =
        [mk_cluster [] (\<lambda>_. mk_parcel ''KUDU'' ''1.4.0-1'' ''ACTIVATED''),
         mk_cluster [] (\<lambda>_. mk_parcel ''KUDU'' ''1.4.0-2'' ''ACTIVATED'')],
      get_cluster = (\<lambda>n. Inl (Api_error n))\<rparr> (Some []) start =
     (Inl Ambiguous_cluster, start) \<and>
   get_cluster
     \<lparr>get_all_clusters =
        [mk_cluster [] (\<lambda>_. mk_parcel ''KUDU'' ''1.4.0-1'' ''ACTIVATED''),
         mk_cluster [] (\<lambda>_. mk_parcel ''KUDU'' ''1.4.0-2'' ''ACTIVATED'')],
      get_cluster = (\<lambda>n. Inl (Api_error n))\<rparr> [] = Inl (Api_error [])"
  by (simp add: find_cluster_def)

section \<open>The stage driver\<close>

text \<open>
  Claim C10.  When the stage of the parcel at entry is \<^verbatim>\<open>ACTIVATED\<close>, or any string other than
  \<^verbatim>\<open>AVAILABLE_REMOTELY\<close>, \<^verbatim>\<open>DOWNLOADED\<close> and \<^verbatim>\<open>DISTRIBUTED\<close>, the driver returns normally and
  leaves the world as it was: no request, no status fetch, no printed line.
\<close>

theorem nothing_to_do:
  assumes "stage p = ''ACTIVATED'' \<or>
           stage p \<notin> {''AVAILABLE_REMOTELY'', ''DOWNLOADED'', ''DISTRIBUTED''}"
  shows "ensure_parcel_activated c p max_time w = (Inr (), w)"
proof -
  from assms have "stage p \<noteq> ''AVAILABLE_REMOTELY''" "stage p \<noteq> ''DOWNLOADED''"
    "stage p \<noteq> ''DISTRIBUTED''"
    by auto
  then show ?thesis
    by (simp add: ensure_parcel_activated_def and_then_def download_step_def
          distribute_step_def activate_step_def)
qed

theorem nothing_to_do_witness:
  "ensure_parcel_activated
     (mk_cluster [] (\<lambda>_. mk_parcel ''KUDU'' ''1.4.0-2'' ''DOWNLOADING''))
     (mk_parcel ''KUDU'' ''1.4.0-2'' ''DOWNLOADING'') 120 start = (Inr (), start) \<and>
   ensure_parcel_activated
     (mk_cluster [] (\<lambda>_. mk_parcel ''KUDU'' ''1.4.0-2'' ''ACTIVATED''))
     (mk_parcel ''KUDU'' ''1.4.0-2'' ''ACTIVATED'') 120 start = (Inr (), start)"
  using
    nothing_to_do [of "mk_parcel ''KUDU'' ''1.4.0-2'' ''DOWNLOADING''"
      "mk_cluster [] (\<lambda>_. mk_parcel ''KUDU'' ''1.4.0-2'' ''DOWNLOADING'')" 120 start]
    nothing_to_do [of "mk_parcel ''KUDU'' ''1.4.0-2'' ''ACTIVATED''"
      "mk_cluster [] (\<lambda>_. mk_parcel ''KUDU'' ''1.4.0-2'' ''ACTIVATED'')" 120 start]
  by simp

subsection \<open>The polling loop\<close>

lemma idle_events_requests: "filter is_request (idle_events c p n j) = []"
  by (induction j arbitrary: n) simp_all


lemma wait_attempts_pending:
  assumes "pending target (status_at c p (polls w))"
  shows "wait_attempts c p target max_time (Suc k) w =
           wait_attempts c p target max_time k
             (w\<lparr>polls := Suc (polls w), trace := trace w @ idle_events c p (polls w) 1\<rparr>)"
  using assms
  by (simp add: fetch_parcel_def pending_def status_at_def emit_def)

lemma wait_attempts_idle:
  assumes "\<forall>i<j. pending target (status_at c p (polls w + i))"
  shows "wait_attempts c p target max_time (j + k) w =
           wait_attempts c p target max_time k
             (w\<lparr>polls := polls w + j, trace := trace w @ idle_events c p (polls w) j\<rparr>)"
  using assms
proof (induction j arbitrary: w)
  case 0
  then show ?case by simp
next
  case (Suc j)
  let ?w1 = "w\<lparr>polls := Suc (polls w), trace := trace w @ idle_events c p (polls w) 1\<rparr>"
  from Suc.prems have "pending target (status_at c p (polls w + 0))"
    by blast
  then have first: "pending target (status_at c p (polls w))"
    by simp
  have "pending target (status_at c p (polls ?w1 + i))" if "i < j" for i
  proof -
    from that have "Suc i < Suc j" by simp
    with Suc.prems have "pending target (status_at c p (polls w + Suc i))"
      by blast
    then show ?thesis by simp
  qed
  then have later: "\<forall>i<j. pending target (status_at c p (polls ?w1 + i))"
    by blast
  have "wait_attempts c p target max_time (Suc j + k) w =
        wait_attempts c p target max_time (j + k) ?w1"
    using wait_attempts_pending [OF first] by simp
  also have "\<dots> = wait_attempts c p target max_time k
      (?w1\<lparr>polls := polls ?w1 + j, trace := trace ?w1 @ idle_events c p (polls ?w1) j\<rparr>)"
    by (rule Suc.IH [OF later])
  also have "?w1\<lparr>polls := polls ?w1 + j, trace := trace ?w1 @ idle_events c p (polls ?w1) j\<rparr> =
      w\<lparr>polls := polls w + Suc j, trace := trace w @ idle_events c p (polls w) (Suc j)\<rparr>"
    by simp
  finally show ?case .
qed

lemma wait_attempts_reached:
  assumes "stage (status_at c p (polls w)) = target"
  shows "wait_attempts c p target max_time (Suc k) w =
           (Inr (), w\<lparr>polls := Suc (polls w),
                       trace := trace w @ [Get_parcel (product_id p) (version p)]\<rparr>)"
  using assms by (simp add: fetch_parcel_def status_at_def)

lemma wait_attempts_error:
  assumes "stage (status_at c p (polls w)) \<noteq> target"
    and "errors (state (status_at c p (polls w))) \<noteq> []"
  shows "wait_attempts c p target max_time (Suc k) w =
           (Inl (Fetch_error (errors (state (status_at c p (polls w))))),
            w\<lparr>polls := Suc (polls w),
              trace := trace w @ [Get_parcel (product_id p) (version p)]\<rparr>)"
  using assms by (simp add: fetch_parcel_def status_at_def)

lemma wait_attempts_observes:
  "\<exists>new. trace (snd (wait_attempts c p target max_time k w)) = trace w @ new \<and>
         filter is_request new = []"
proof (induction k arbitrary: w)
  case 0
  show ?case by simp
next
  case (Suc k)
  let ?st = "status_at c p (polls w)"
  consider "stage ?st = target" | "stage ?st \<noteq> target" "errors (state ?st) \<noteq> []"
    | "pending target ?st"
    unfolding pending_def by blast
  then show ?case
  proof cases
    case 1
    show ?thesis unfolding wait_attempts_reached [OF 1] by simp
  next
    case 2
    show ?thesis unfolding wait_attempts_error [OF 2] by simp
  next
    case 3
    let ?w1 = "w\<lparr>polls := Suc (polls w), trace := trace w @ idle_events c p (polls w) 1\<rparr>"
    from Suc.IH [of ?w1] obtain new where
      new: "trace (snd (wait_attempts c p target max_time k ?w1)) = trace ?w1 @ new"
        "filter is_request new = []"
      by blast
    have "trace (snd (wait_attempts c p target max_time (Suc k) w)) =
        trace w @ (idle_events c p (polls w) 1 @ new)"
      unfolding wait_attempts_pending [OF 3] new(1) by simp
    moreover have "filter is_request (idle_events c p (polls w) 1 @ new) = []"
      using new(2) by (simp add: idle_events_requests)
    ultimately show ?thesis by blast
  qed
qed

lemma sys_maxint_update [simp]:
  "sys_maxint (w\<lparr>polls := n\<rparr>) = sys_maxint w"
  "sys_maxint (w\<lparr>trace := t\<rparr>) = sys_maxint w"
  "sys_maxint (emit e w) = sys_maxint w"
  by (simp_all add: sys_maxint_def emit_def)

lemma sys_maxint_ge: "2147483647 \<le> sys_maxint w"
proof -
  have "(2::int) ^ 31 \<le> 2 ^ (max 32 (long_bits w) - 1)"
    by (rule power_increasing) simp_all
  then show ?thesis by (simp add: sys_maxint_def)
qed

lemma xrange_budget:
  assumes "0 \<le> max_time" and "max_time < sys_maxint w"
  shows "xrange_len w 1 (max_time + 1) = Inr (nat max_time)"
  using assms sys_maxint_ge [of w] by (simp add: xrange_len_def fits_long_def)

lemma xrange_overflow:
  assumes "sys_maxint w \<le> max_time"
  shows "xrange_len w 1 (max_time + 1) = Inl Overflow_error"
  using assms by (simp add: xrange_len_def fits_long_def)

lemma wait_in_budget:
  assumes "0 \<le> max_time" and "max_time < sys_maxint w"
  shows "wait_for_parcel_stage c p target max_time w =
           wait_attempts c p target max_time (nat max_time) w"
  by (simp add: wait_for_parcel_stage_def xrange_budget [OF assms])

lemma wait_overflow:
  assumes "sys_maxint w \<le> max_time"
  shows "wait_for_parcel_stage c p target max_time w = (Inl Overflow_error, w)"
  by (simp add: wait_for_parcel_stage_def xrange_overflow [OF assms])

lemma wait_observes:
  "\<exists>new. trace (snd (wait_for_parcel_stage c p target max_time w)) = trace w @ new \<and>
         filter is_request new = []"
proof (cases "xrange_len w 1 (max_time + 1)")
  case (Inl e)
  then show ?thesis by (simp add: wait_for_parcel_stage_def)
next
  case (Inr attempts)
  then show ?thesis
    using wait_attempts_observes [of c p target max_time attempts w]
    by (simp add: wait_for_parcel_stage_def)
qed

lemma wait_reached_after:
  assumes "j < nat max_time" and "\<forall>i<j. pending target (status_at c p (polls w + i))"
    and "max_time < sys_maxint w"
    and "stage (status_at c p (polls w + j)) = target"
  shows "wait_for_parcel_stage c p target max_time w =
           (Inr (), w\<lparr>polls := polls w + j + 1,
                       trace := trace w @ idle_events c p (polls w) j @
                                [Get_parcel (product_id p) (version p)]\<rparr>)"
proof -
  let ?w = "w\<lparr>polls := polls w + j, trace := trace w @ idle_events c p (polls w) j\<rparr>"
  define k where "k = nat max_time - Suc j"
  have k: "nat max_time = j + Suc k"
    using assms(1) by (simp add: k_def)
  have budget: "0 \<le> max_time"
    using assms(1) by simp
  have "stage (status_at c p (polls ?w)) = target"
    using assms(4) by simp
  from wait_attempts_reached [OF this, of max_time k]
  show ?thesis
    unfolding wait_in_budget [OF budget assms(3)] k wait_attempts_idle [OF assms(2)] by simp
qed

lemma wait_error_after:
  assumes "j < nat max_time" and "\<forall>i<j. pending target (status_at c p (polls w + i))"
    and "max_time < sys_maxint w"
    and "stage (status_at c p (polls w + j)) \<noteq> target"
    and "errors (state (status_at c p (polls w + j))) \<noteq> []"
  shows "wait_for_parcel_stage c p target max_time w =
           (Inl (Fetch_error (errors (state (status_at c p (polls w + j))))),
            w\<lparr>polls := polls w + j + 1,
              trace := trace w @ idle_events c p (polls w) j @
                       [Get_parcel (product_id p) (version p)]\<rparr>)"
proof -
  let ?w = "w\<lparr>polls := polls w + j, trace := trace w @ idle_events c p (polls w) j\<rparr>"
  define k where "k = nat max_time - Suc j"
  have k: "nat max_time = j + Suc k"
    using assms(1) by (simp add: k_def)
  have "stage (status_at c p (polls ?w)) \<noteq> target"
       "errors (state (status_at c p (polls ?w))) \<noteq> []"
    using assms(4,5) by simp_all
  note last = this
  have budget: "0 \<le> max_time"
    using assms(1) by simp
  from wait_attempts_error [OF last, of max_time k]
  show ?thesis
    unfolding wait_in_budget [OF budget assms(3)] k wait_attempts_idle [OF assms(2)] by simp
qed


text \<open>
  Claim C5.  Take an attempt of the wait that is within the budget, the budget being one the
  loop can count (below \<^verbatim>\<open>sys.maxint\<close>), all the attempts before it having found the parcel
  pending.  If the status it fetches is at the target stage, the wait
  succeeds on that attempt: the fetch is its last event.  If the status is not at the target
  stage and carries a non-empty error list, the wait fails on that attempt with that error list,
  the fetch again being its last event: no progress line, no sleep, no further fetch.
\<close>

theorem poll_outcome:
  assumes "j < nat max_time" and "\<forall>i<j. pending target (status_at c p (polls w + i))"
    and "max_time < sys_maxint w"
  shows "(stage (status_at c p (polls w + j)) = target \<longrightarrow>
            wait_for_parcel_stage c p target max_time w =
              (Inr (), w\<lparr>polls := polls w + j + 1,
                          trace := trace w @ idle_events c p (polls w) j @
                                   [Get_parcel (product_id p) (version p)]\<rparr>)) \<and>
         (stage (status_at c p (polls w + j)) \<noteq> target \<and>
          errors (state (status_at c p (polls w + j))) \<noteq> [] \<longrightarrow>
            wait_for_parcel_stage c p target max_time w =
              (Inl (Fetch_error (errors (state (status_at c p (polls w + j))))),
               w\<lparr>polls := polls w + j + 1,
                 trace := trace w @ idle_events c p (polls w) j @
                          [Get_parcel (product_id p) (version p)]\<rparr>))"
proof (intro conjI impI)
  assume "stage (status_at c p (polls w + j)) = target"
  then show "wait_for_parcel_stage c p target max_time w =
      (Inr (), w\<lparr>polls := polls w + j + 1,
                  trace := trace w @ idle_events c p (polls w) j @
                           [Get_parcel (product_id p) (version p)]\<rparr>)"
    by (rule wait_reached_after [OF assms])
next
  assume "stage (status_at c p (polls w + j)) \<noteq> target \<and>
          errors (state (status_at c p (polls w + j))) \<noteq> []"
  then show "wait_for_parcel_stage c p target max_time w =
      (Inl (Fetch_error (errors (state (status_at c p (polls w + j))))),
       w\<lparr>polls := polls w + j + 1,
         trace := trace w @ idle_events c p (polls w) j @
                  [Get_parcel (product_id p) (version p)]\<rparr>)"
    using wait_error_after [OF assms] by simp
qed

theorem poll_outcome_witness:
  "wait_for_parcel_stage
     (mk_cluster []
        (\<lambda>n. if n = 0 then mk_parcel ''KUDU'' ''1.4.0-2'' ''DOWNLOADED''
             else mk_parcel ''KUDU'' ''1.4.0-2'' ''DISTRIBUTED''))
     (mk_parcel ''KUDU'' ''1.4.0-2'' ''DOWNLOADED'') ''DISTRIBUTED'' 5 start =
     (Inr (),
      \<lparr>long_bits = 64, polls = 2,
       trace = [Get_parcel ''KUDU'' ''1.4.0-2'', Print (Progress_line 0 0), Sleep 1,
                Get_parcel ''KUDU'' ''1.4.0-2'']\<rparr>) \<and>
   wait_for_parcel_stage
     (mk_cluster []
        (\<lambda>n. if n = 0 then mk_parcel ''KUDU'' ''1.4.0-2'' ''DOWNLOADED''
             else \<lparr>product_id = ''KUDU'', version = ''1.4.0-2'', stage = ''DOWNLOADED'',
                   state = \<lparr>errors = [''disk full''], progress = 3, totalProgress = 10\<rparr>\<rparr>))
     (mk_parcel ''KUDU'' ''1.4.0-2'' ''DOWNLOADED'') ''DISTRIBUTED'' 5 start =
     (Inl (Fetch_error [''disk full'']),
      \<lparr>long_bits = 64, polls = 2,
       trace = [Get_parcel ''KUDU'' ''1.4.0-2'', Print (Progress_line 0 0), Sleep 1,
                Get_parcel ''KUDU'' ''1.4.0-2'']\<rparr>)"
proof -
  let ?p = "mk_parcel ''KUDU'' ''1.4.0-2'' ''DOWNLOADED''"
  let ?good = "mk_cluster []
        (\<lambda>n. if n = 0 then mk_parcel ''KUDU'' ''1.4.0-2'' ''DOWNLOADED''
             else mk_parcel ''KUDU'' ''1.4.0-2'' ''DISTRIBUTED'')"
  let ?bad = "mk_cluster []
        (\<lambda>n. if n = 0 then mk_parcel ''KUDU'' ''1.4.0-2'' ''DOWNLOADED''
             else \<lparr>product_id = ''KUDU'', version = ''1.4.0-2'', stage = ''DOWNLOADED'',
                   state = \<lparr>errors = [''disk full''], progress = 3, totalProgress = 10\<rparr>\<rparr>)"
  have j: "(1::nat) < nat 5" by simp
  have g: "\<forall>i<1::nat. pending ''DISTRIBUTED'' (status_at ?good ?p (polls start + i))"
    by (simp add: pending_def status_at_def)
  have b: "\<forall>i<1::nat. pending ''DISTRIBUTED'' (status_at ?bad ?p (polls start + i))"
    by (simp add: pending_def status_at_def)
  have m: "5 < sys_maxint start"
    by (simp add: sys_maxint_def)
  have "wait_for_parcel_stage ?good ?p ''DISTRIBUTED'' 5 start =
      (Inr (),
       \<lparr>long_bits = 64, polls = 2,
        trace = [Get_parcel ''KUDU'' ''1.4.0-2'', Print (Progress_line 0 0), Sleep 1,
                 Get_parcel ''KUDU'' ''1.4.0-2'']\<rparr>)"
    using poll_outcome [OF j g m] by (simp add: status_at_def)
  moreover have "wait_for_parcel_stage ?bad ?p ''DISTRIBUTED'' 5 start =
      (Inl (Fetch_error [''disk full'']),
       \<lparr>long_bits = 64, polls = 2,
        trace = [Get_parcel ''KUDU'' ''1.4.0-2'', Print (Progress_line 0 0), Sleep 1,
                 Get_parcel ''KUDU'' ''1.4.0-2'']\<rparr>)"
    using poll_outcome [OF j b m] by (simp add: status_at_def)
  ultimately show ?thesis by (rule conjI)
qed

lemma ensure_from_downloaded:
  assumes "stage p = ''DOWNLOADED''"
  shows "ensure_parcel_activated c p max_time w =
           and_then (distribute_step c p max_time ''DOWNLOADED'') (activate_step c p max_time) w"
  using assms by (simp add: ensure_parcel_activated_def and_then_def download_step_def)





subsection \<open>The events of the three steps\<close>

lemma activate_step_trace:
  "\<exists>new. trace (snd (activate_step c p max_time ''DISTRIBUTED'' w)) =
           trace w @ [Print (Activating (product_id p) (version p)),
                      Activate (product_id p) (version p)] @ new \<and>
         filter is_request new = []"
proof -
  let ?w = "emit (Activate (product_id p) (version p))
              (emit (Print (Activating (product_id p) (version p))) w)"
  obtain r w1 where run: "wait_for_parcel_stage c p ''ACTIVATED'' max_time ?w = (r, w1)"
    by (cases "wait_for_parcel_stage c p ''ACTIVATED'' max_time ?w")
  from wait_observes [of c p "''ACTIVATED''" max_time ?w] obtain new where
    new: "trace w1 = trace ?w @ new" "filter is_request new = []"
    unfolding run by auto
  show ?thesis
  proof (cases r)
    case (Inl e)
    then have "trace (snd (activate_step c p max_time ''DISTRIBUTED'' w)) =
        trace w @ [Print (Activating (product_id p) (version p)),
                   Activate (product_id p) (version p)] @ new"
      using run new(1) by (simp add: activate_step_def and_then_def emit_def)
    with new(2) show ?thesis by blast
  next
    case (Inr u)
    then have "trace (snd (activate_step c p max_time ''DISTRIBUTED'' w)) =
        trace w @ [Print (Activating (product_id p) (version p)),
                   Activate (product_id p) (version p)] @
        (new @ [Print (Activated (product_id p) (version p))])"
      using run new(1) by (simp add: activate_step_def and_then_def emit_def)
    moreover have "filter is_request (new @ [Print (Activated (product_id p) (version p))]) = []"
      using new(2) by simp
    ultimately show ?thesis by blast
  qed
qed

lemma distribute_step_trace:
  "\<exists>r w1 new. distribute_step c p max_time ''DOWNLOADED'' w = (r, w1) \<and>
     (r = Inr ''DISTRIBUTED'' \<or> (\<exists>e. r = Inl e)) \<and>
     trace w1 = trace w @ [Print (Distributing (product_id p) (version p)),
                           Start_distribution (product_id p) (version p)] @ new \<and>
     filter is_request new = []"
proof -
  let ?w = "emit (Start_distribution (product_id p) (version p))
              (emit (Print (Distributing (product_id p) (version p))) w)"
  obtain r w1 where run: "wait_for_parcel_stage c p ''DISTRIBUTED'' max_time ?w = (r, w1)"
    by (cases "wait_for_parcel_stage c p ''DISTRIBUTED'' max_time ?w")
  from wait_observes [of c p "''DISTRIBUTED''" max_time ?w] obtain new where
    new: "trace w1 = trace ?w @ new" "filter is_request new = []"
    unfolding run by auto
  show ?thesis
  proof (cases r)
    case (Inl e)
    then have "distribute_step c p max_time ''DOWNLOADED'' w = (Inl e, w1)"
      using run by (simp add: distribute_step_def and_then_def)
    moreover have "trace w1 = trace w @ [Print (Distributing (product_id p) (version p)),
                           Start_distribution (product_id p) (version p)] @ new"
      using new(1) by (simp add: emit_def)
    ultimately show ?thesis using new(2) by blast
  next
    case (Inr u)
    let ?w2 = "emit (Print (Distributed (product_id p) (version p))) w1"
    from Inr have "distribute_step c p max_time ''DOWNLOADED'' w = (Inr ''DISTRIBUTED'', ?w2)"
      using run by (simp add: distribute_step_def and_then_def)
    moreover have "trace ?w2 = trace w @ [Print (Distributing (product_id p) (version p)),
                           Start_distribution (product_id p) (version p)] @
        (new @ [Print (Distributed (product_id p) (version p))])"
      using new(1) by (simp add: emit_def)
    moreover have "filter is_request (new @ [Print (Distributed (product_id p) (version p))]) = []"
      using new(2) by simp
    ultimately show ?thesis by blast
  qed
qed

lemma download_step_trace:
  "\<exists>r w1 new. download_step c p max_time ''AVAILABLE_REMOTELY'' w = (r, w1) \<and>
     (r = Inr ''DOWNLOADED'' \<or> (\<exists>e. r = Inl e)) \<and>
     trace w1 = trace w @ [Print (Downloading (product_id p) (version p)),
                           Start_download (product_id p) (version p)] @ new \<and>
     filter is_request new = []"
proof -
  let ?w = "emit (Start_download (product_id p) (version p))
              (emit (Print (Downloading (product_id p) (version p))) w)"
  obtain r w1 where run: "wait_for_parcel_stage c p ''DOWNLOADED'' max_time ?w = (r, w1)"
    by (cases "wait_for_parcel_stage c p ''DOWNLOADED'' max_time ?w")
  from wait_observes [of c p "''DOWNLOADED''" max_time ?w] obtain new where
    new: "trace w1 = trace ?w @ new" "filter is_request new = []"
    unfolding run by auto
  show ?thesis
  proof (cases r)
    case (Inl e)
    then have "download_step c p max_time ''AVAILABLE_REMOTELY'' w = (Inl e, w1)"
      using run by (simp add: download_step_def and_then_def)
    moreover have "trace w1 = trace w @ [Print (Downloading (product_id p) (version p)),
                           Start_download (product_id p) (version p)] @ new"
      using new(1) by (simp add: emit_def)
    ultimately show ?thesis using new(2) by blast
  next
    case (Inr u)
    let ?w2 = "emit (Print (Downloaded (product_id p) (version p))) w1"
    from Inr have "download_step c p max_time ''AVAILABLE_REMOTELY'' w = (Inr ''DOWNLOADED'', ?w2)"
      using run by (simp add: download_step_def and_then_def)
    moreover have "trace ?w2 = trace w @ [Print (Downloading (product_id p) (version p)),
                           Start_download (product_id p) (version p)] @
        (new @ [Print (Downloaded (product_id p) (version p))])"
      using new(1) by (simp add: emit_def)
    moreover have "filter is_request (new @ [Print (Downloaded (product_id p) (version p))]) = []"
      using new(2) by simp
    ultimately show ?thesis by blast
  qed
qed

subsection \<open>Resuming from the stage at entry (C3)\<close>

lemma ensure_from_distributed:
  assumes "stage p = ''DISTRIBUTED''"
  shows "ensure_parcel_activated c p max_time w = activate_step c p max_time ''DISTRIBUTED'' w"
  using assms
  by (simp add: ensure_parcel_activated_def and_then_def download_step_def distribute_step_def)

lemma ensure_from_available:
  assumes "stage p = ''AVAILABLE_REMOTELY''"
  shows "ensure_parcel_activated c p max_time w =
           and_then (download_step c p max_time ''AVAILABLE_REMOTELY'')
             (\<lambda>parcel_stage.
                and_then (distribute_step c p max_time parcel_stage)
                  (activate_step c p max_time)) w"
  using assms by (simp add: ensure_parcel_activated_def)

lemma after_downloaded_trace:
  "\<exists>new. trace (snd (and_then (distribute_step c p max_time ''DOWNLOADED'')
                        (activate_step c p max_time) w)) =
           trace w @ [Print (Distributing (product_id p) (version p)),
                      Start_distribution (product_id p) (version p)] @ new \<and>
         (filter is_request new = [] \<or>
          filter is_request new = [Activate (product_id p) (version p)])"
proof -
  from distribute_step_trace [of c p max_time w] obtain r w1 new1 where
    run: "distribute_step c p max_time ''DOWNLOADED'' w = (r, w1)"
    and res: "r = Inr ''DISTRIBUTED'' \<or> (\<exists>e. r = Inl e)"
    and tr: "trace w1 = trace w @ [Print (Distributing (product_id p) (version p)),
                           Start_distribution (product_id p) (version p)] @ new1"
    and nr: "filter is_request new1 = []"
    by blast
  from res show ?thesis
  proof
    assume "r = Inr ''DISTRIBUTED''"
    then have step: "and_then (distribute_step c p max_time ''DOWNLOADED'')
        (activate_step c p max_time) w = activate_step c p max_time ''DISTRIBUTED'' w1"
      using run by (simp add: and_then_def)
    from activate_step_trace [of c p max_time w1] obtain new2 where
      tr2: "trace (snd (activate_step c p max_time ''DISTRIBUTED'' w1)) =
          trace w1 @ [Print (Activating (product_id p) (version p)),
                      Activate (product_id p) (version p)] @ new2"
      and nr2: "filter is_request new2 = []"
      by blast
    let ?new = "new1 @ [Print (Activating (product_id p) (version p)),
                        Activate (product_id p) (version p)] @ new2"
    have "trace (snd (and_then (distribute_step c p max_time ''DOWNLOADED'')
                        (activate_step c p max_time) w)) =
           trace w @ [Print (Distributing (product_id p) (version p)),
                      Start_distribution (product_id p) (version p)] @ ?new"
      unfolding step tr2 tr by simp
    moreover have "filter is_request ?new = [Activate (product_id p) (version p)]"
      using nr nr2 by simp
    ultimately show ?thesis by blast
  next
    assume "\<exists>e. r = Inl e"
    then obtain e where "r = Inl e" by blast
    then have "and_then (distribute_step c p max_time ''DOWNLOADED'')
        (activate_step c p max_time) w = (Inl e, w1)"
      using run by (simp add: and_then_def)
    then show ?thesis using tr nr by auto
  qed
qed

lemma after_available_trace:
  "\<exists>new. trace (snd (and_then (download_step c p max_time ''AVAILABLE_REMOTELY'')
                        (\<lambda>parcel_stage.
                           and_then (distribute_step c p max_time parcel_stage)
                             (activate_step c p max_time)) w)) =
           trace w @ [Print (Downloading (product_id p) (version p)),
                      Start_download (product_id p) (version p)] @ new \<and>
         (filter is_request new = [] \<or>
          filter is_request new = [Start_distribution (product_id p) (version p)] \<or>
          filter is_request new = [Start_distribution (product_id p) (version p),
                                   Activate (product_id p) (version p)])"
proof -
  from download_step_trace [of c p max_time w] obtain r w1 new1 where
    run: "download_step c p max_time ''AVAILABLE_REMOTELY'' w = (r, w1)"
    and res: "r = Inr ''DOWNLOADED'' \<or> (\<exists>e. r = Inl e)"
    and tr: "trace w1 = trace w @ [Print (Downloading (product_id p) (version p)),
                           Start_download (product_id p) (version p)] @ new1"
    and nr: "filter is_request new1 = []"
    by blast
  from res show ?thesis
  proof
    assume "r = Inr ''DOWNLOADED''"
    then have step: "and_then (download_step c p max_time ''AVAILABLE_REMOTELY'')
        (\<lambda>parcel_stage. and_then (distribute_step c p max_time parcel_stage)
                            (activate_step c p max_time)) w =
        and_then (distribute_step c p max_time ''DOWNLOADED'') (activate_step c p max_time) w1"
      using run by (simp add: and_then_def [of "download_step c p max_time ''AVAILABLE_REMOTELY''"])
    from after_downloaded_trace [of c p max_time w1] obtain new2 where
      tr2: "trace (snd (and_then (distribute_step c p max_time ''DOWNLOADED'')
                        (activate_step c p max_time) w1)) =
          trace w1 @ [Print (Distributing (product_id p) (version p)),
                      Start_distribution (product_id p) (version p)] @ new2"
      and nr2: "filter is_request new2 = [] \<or>
          filter is_request new2 = [Activate (product_id p) (version p)]"
      by blast
    let ?new = "new1 @ [Print (Distributing (product_id p) (version p)),
                        Start_distribution (product_id p) (version p)] @ new2"
    have "trace (snd (and_then (download_step c p max_time ''AVAILABLE_REMOTELY'')
        (\<lambda>parcel_stage. and_then (distribute_step c p max_time parcel_stage)
                            (activate_step c p max_time)) w)) =
           trace w @ [Print (Downloading (product_id p) (version p)),
                      Start_download (product_id p) (version p)] @ ?new"
      unfolding step tr2 tr by simp
    moreover have "filter is_request ?new = [Start_distribution (product_id p) (version p)] \<or>
        filter is_request ?new = [Start_distribution (product_id p) (version p),
                                  Activate (product_id p) (version p)]"
      using nr nr2 by auto
    ultimately show ?thesis by blast
  next
    assume "\<exists>e. r = Inl e"
    then obtain e where "r = Inl e" by blast
    then have "and_then (download_step c p max_time ''AVAILABLE_REMOTELY'')
        (\<lambda>parcel_stage. and_then (distribute_step c p max_time parcel_stage)
                            (activate_step c p max_time)) w = (Inl e, w1)"
      using run by (simp add: and_then_def [of "download_step c p max_time ''AVAILABLE_REMOTELY''"])
    then show ?thesis using tr nr by auto
  qed
qed

lemma distribute_step_second_poll:
  assumes "pending ''DISTRIBUTED'' (status_at c p (polls w))"
    and "stage (status_at c p (Suc (polls w))) = ''DISTRIBUTED''"
  shows "distribute_step c p 5 ''DOWNLOADED'' w =
           (Inr ''DISTRIBUTED'',
            w\<lparr>polls := polls w + 2,
              trace := trace w @
                [Print (Distributing (product_id p) (version p)),
                 Start_distribution (product_id p) (version p),
                 Get_parcel (product_id p) (version p),
                 Print (Progress_line (progress (state (status_at c p (polls w))))
                          (totalProgress (state (status_at c p (polls w))))),
                 Sleep 1,
                 Get_parcel (product_id p) (version p),
                 Print (Distributed (product_id p) (version p))]\<rparr>)"
proof -
  let ?w = "emit (Start_distribution (product_id p) (version p))
              (emit (Print (Distributing (product_id p) (version p))) w)"
  have j: "(1::nat) < nat 5" by simp
  have first: "\<forall>i<1::nat. pending ''DISTRIBUTED'' (status_at c p (polls ?w + i))"
    using assms(1) by (simp add: emit_def)
  have budget: "5 < sys_maxint ?w"
    using sys_maxint_ge [of w] by simp
  have second: "stage (status_at c p (polls ?w + 1)) = ''DISTRIBUTED''"
    using assms(2) by (simp add: emit_def)
  from wait_reached_after [OF j first budget second] show ?thesis
    by (simp add: distribute_step_def and_then_def emit_def)
qed

lemma ensure_other_stage:
  assumes "stage p \<noteq> ''AVAILABLE_REMOTELY''" "stage p \<noteq> ''DOWNLOADED''"
    "stage p \<noteq> ''DISTRIBUTED''"
  shows "ensure_parcel_activated c p max_time w = (Inr (), w)"
  using assms
  by (simp add: ensure_parcel_activated_def and_then_def download_step_def
        distribute_step_def activate_step_def)

lemma ensure_second_poll:
  assumes "stage p = ''DOWNLOADED''"
    and "pending ''DISTRIBUTED'' (status_at c p (polls w))"
    and "stage (status_at c p (Suc (polls w))) = ''DISTRIBUTED''"
  shows "\<exists>tail. trace (snd (ensure_parcel_activated c p 5 w)) =
           trace w @
           [Print (Distributing (product_id p) (version p)),
            Start_distribution (product_id p) (version p),
            Get_parcel (product_id p) (version p),
            Print (Progress_line (progress (state (status_at c p (polls w))))
                     (totalProgress (state (status_at c p (polls w))))),
            Sleep 1,
            Get_parcel (product_id p) (version p),
            Print (Distributed (product_id p) (version p)),
            Print (Activating (product_id p) (version p)),
            Activate (product_id p) (version p)] @ tail \<and>
           filter is_request tail = []"
proof -
  let ?w3 = "w\<lparr>polls := polls w + 2,
              trace := trace w @
                [Print (Distributing (product_id p) (version p)),
                 Start_distribution (product_id p) (version p),
                 Get_parcel (product_id p) (version p),
                 Print (Progress_line (progress (state (status_at c p (polls w))))
                          (totalProgress (state (status_at c p (polls w))))),
                 Sleep 1,
                 Get_parcel (product_id p) (version p),
                 Print (Distributed (product_id p) (version p))]\<rparr>"
  have step: "ensure_parcel_activated c p 5 w = activate_step c p 5 ''DISTRIBUTED'' ?w3"
    unfolding ensure_from_downloaded [OF assms(1)]
    by (simp add: and_then_def distribute_step_second_poll [OF assms(2,3)])
  from activate_step_trace [of c p 5 ?w3] obtain tail where
    "trace (snd (activate_step c p 5 ''DISTRIBUTED'' ?w3)) =
       trace ?w3 @ [Print (Activating (product_id p) (version p)),
                    Activate (product_id p) (version p)] @ tail"
    "filter is_request tail = []"
    by blast
  then show ?thesis
    unfolding step by simp
qed

lemma ensure_requests:
  "\<exists>new. trace (snd (ensure_parcel_activated c p max_time w)) = trace w @ new \<and>
     (stage p = ''AVAILABLE_REMOTELY'' \<longrightarrow>
        take 2 new = [Print (Downloading (product_id p) (version p)),
                      Start_download (product_id p) (version p)] \<and>
        (filter is_request new = [Start_download (product_id p) (version p)] \<or>
         filter is_request new = [Start_download (product_id p) (version p),
                                  Start_distribution (product_id p) (version p)] \<or>
         filter is_request new = [Start_download (product_id p) (version p),
                                  Start_distribution (product_id p) (version p),
                                  Activate (product_id p) (version p)])) \<and>
     (stage p = ''DOWNLOADED'' \<longrightarrow>
        take 2 new = [Print (Distributing (product_id p) (version p)),
                      Start_distribution (product_id p) (version p)] \<and>
        (filter is_request new = [Start_distribution (product_id p) (version p)] \<or>
         filter is_request new = [Start_distribution (product_id p) (version p),
                                  Activate (product_id p) (version p)])) \<and>
     (stage p = ''DISTRIBUTED'' \<longrightarrow>
        take 2 new = [Print (Activating (product_id p) (version p)),
                      Activate (product_id p) (version p)] \<and>
        filter is_request new = [Activate (product_id p) (version p)])"
proof -
  consider (avail) "stage p = ''AVAILABLE_REMOTELY''" | (down) "stage p = ''DOWNLOADED''"
    | (dist) "stage p = ''DISTRIBUTED''"
    | (other) "stage p \<noteq> ''AVAILABLE_REMOTELY''" "stage p \<noteq> ''DOWNLOADED''"
        "stage p \<noteq> ''DISTRIBUTED''"
    by blast
  then show ?thesis
  proof cases
    case avail
    from after_available_trace [of c p max_time w] obtain new where
      "trace (snd (ensure_parcel_activated c p max_time w)) =
         trace w @ [Print (Downloading (product_id p) (version p)),
                    Start_download (product_id p) (version p)] @ new"
      "filter is_request new = [] \<or>
       filter is_request new = [Start_distribution (product_id p) (version p)] \<or>
       filter is_request new = [Start_distribution (product_id p) (version p),
                                Activate (product_id p) (version p)]"
      unfolding ensure_from_available [OF avail] by blast
    then show ?thesis
      using avail
      by (intro exI [of _ "[Print (Downloading (product_id p) (version p)),
                    Start_download (product_id p) (version p)] @ new"]) auto
  next
    case down
    from after_downloaded_trace [of c p max_time w] obtain new where
      "trace (snd (ensure_parcel_activated c p max_time w)) =
         trace w @ [Print (Distributing (product_id p) (version p)),
                    Start_distribution (product_id p) (version p)] @ new"
      "filter is_request new = [] \<or>
       filter is_request new = [Activate (product_id p) (version p)]"
      unfolding ensure_from_downloaded [OF down] by blast
    then show ?thesis
      using down
      by (intro exI [of _ "[Print (Distributing (product_id p) (version p)),
                    Start_distribution (product_id p) (version p)] @ new"]) auto
  next
    case dist
    from activate_step_trace [of c p max_time w] obtain new where
      "trace (snd (ensure_parcel_activated c p max_time w)) =
         trace w @ [Print (Activating (product_id p) (version p)),
                    Activate (product_id p) (version p)] @ new"
      "filter is_request new = []"
      unfolding ensure_from_distributed [OF dist] by blast
    then show ?thesis
      using dist
      by (intro exI [of _ "[Print (Activating (product_id p) (version p)),
                    Activate (product_id p) (version p)] @ new"]) auto
  next
    case other
    then show ?thesis
      by (intro exI [of _ "[]"]) (simp add: ensure_other_stage)
  qed
qed

text \<open>
  Claim C3.  A parcel enters the driver at \<^verbatim>\<open>DOWNLOADED\<close> with a budget of 5; the first status
  fetched is pending and the second is at \<^verbatim>\<open>DISTRIBUTED\<close>.  Then the events of the driver start
  with: the distribution line, one distribution request, a fetch, the progress line, the sleep,
  the second fetch, the distributed line, the activation line and the activation request; no
  download request is among them, and no request follows.  In general the first request is the
  one of the stage at entry and the requests made are a run of download, distribution,
  activation starting there: from \<^verbatim>\<open>DOWNLOADED\<close> no download is requested, from \<^verbatim>\<open>DISTRIBUTED\<close>
  the activation is the only request.
\<close>

theorem resumes_from_observed_stage:
  "(stage p = ''DOWNLOADED'' \<and> pending ''DISTRIBUTED'' (status_at c p (polls w)) \<and>
    stage (status_at c p (Suc (polls w))) = ''DISTRIBUTED'' \<longrightarrow>
      (\<exists>tail. trace (snd (ensure_parcel_activated c p 5 w)) =
           trace w @
           [Print (Distributing (product_id p) (version p)),
            Start_distribution (product_id p) (version p),
            Get_parcel (product_id p) (version p),
            Print (Progress_line (progress (state (status_at c p (polls w))))
                     (totalProgress (state (status_at c p (polls w))))),
            Sleep 1,
            Get_parcel (product_id p) (version p),
            Print (Distributed (product_id p) (version p)),
            Print (Activating (product_id p) (version p)),
            Activate (product_id p) (version p)] @ tail \<and>
           filter is_request tail = [])) \<and>
   (\<exists>new. trace (snd (ensure_parcel_activated c p max_time w)) = trace w @ new \<and>
     (stage p = ''AVAILABLE_REMOTELY'' \<longrightarrow>
        take 2 new = [Print (Downloading (product_id p) (version p)),
                      Start_download (product_id p) (version p)] \<and>
        (filter is_request new = [Start_download (product_id p) (version p)] \<or>
         filter is_request new = [Start_download (product_id p) (version p),
                                  Start_distribution (product_id p) (version p)] \<or>
         filter is_request new = [Start_download (product_id p) (version p),
                                  Start_distribution (product_id p) (version p),
                                  Activate (product_id p) (version p)])) \<and>
     (stage p = ''DOWNLOADED'' \<longrightarrow>
        take 2 new = [Print (Distributing (product_id p) (version p)),
                      Start_distribution (product_id p) (version p)] \<and>
        (filter is_request new = [Start_distribution (product_id p) (version p)] \<or>
         filter is_request new = [Start_distribution (product_id p) (version p),
                                  Activate (product_id p) (version p)])) \<and>
     (stage p = ''DISTRIBUTED'' \<longrightarrow>
        take 2 new = [Print (Activating (product_id p) (version p)),
                      Activate (product_id p) (version p)] \<and>
        filter is_request new = [Activate (product_id p) (version p)]))"
  using ensure_second_poll [of p c w] ensure_requests [of c p max_time w]
  by (intro conjI impI) blast+

theorem resumes_from_observed_stage_witness:
  "ensure_parcel_activated
     (mk_cluster []
        (\<lambda>n. if n = 0 then mk_parcel ''KUDU'' ''1.4.0-2'' ''DOWNLOADED''
             else if n = 1 then mk_parcel ''KUDU'' ''1.4.0-2'' ''DISTRIBUTED''
             else mk_parcel ''KUDU'' ''1.4.0-2'' ''ACTIVATED''))
     (mk_parcel ''KUDU'' ''1.4.0-2'' ''DOWNLOADED'') 5 start =
     (Inr (),
      \<lparr>long_bits = 64, polls = 3,
       trace = [Print (Distributing ''KUDU'' ''1.4.0-2''), Start_distribution ''KUDU'' ''1.4.0-2'',
                Get_parcel ''KUDU'' ''1.4.0-2'', Print (Progress_line 0 0), Sleep 1,
                Get_parcel ''KUDU'' ''1.4.0-2'', Print (Distributed ''KUDU'' ''1.4.0-2''),
                Print (Activating ''KUDU'' ''1.4.0-2''), Activate ''KUDU'' ''1.4.0-2'',
                Get_parcel ''KUDU'' ''1.4.0-2'', Print (Activated ''KUDU'' ''1.4.0-2'')]\<rparr>) \<and>
   take 9 (trace (snd (ensure_parcel_activated
     (mk_cluster []
        (\<lambda>n. if n = 0 then mk_parcel ''KUDU'' ''1.4.0-2'' ''DOWNLOADED''
             else if n = 1 then mk_parcel ''KUDU'' ''1.4.0-2'' ''DISTRIBUTED''
             else mk_parcel ''KUDU'' ''1.4.0-2'' ''ACTIVATED''))
     (mk_parcel ''KUDU'' ''1.4.0-2'' ''DOWNLOADED'') 5 start))) =
     [Print (Distributing ''KUDU'' ''1.4.0-2''), Start_distribution ''KUDU'' ''1.4.0-2'',
      Get_parcel ''KUDU'' ''1.4.0-2'', Print (Progress_line 0 0), Sleep 1,
      Get_parcel ''KUDU'' ''1.4.0-2'', Print (Distributed ''KUDU'' ''1.4.0-2''),
      Print (Activating ''KUDU'' ''1.4.0-2''), Activate ''KUDU'' ''1.4.0-2''] \<and>
   filter is_request (trace (snd (ensure_parcel_activated
     (mk_cluster [] (\<lambda>_. mk_parcel ''KUDU'' ''1.4.0-2'' ''ACTIVATED''))
     (mk_parcel ''KUDU'' ''1.4.0-2'' ''DISTRIBUTED'') 5 start))) =
     [Activate ''KUDU'' ''1.4.0-2''] \<and>
   take 2 (trace (snd (ensure_parcel_activated
     (mk_cluster [] (\<lambda>_. mk_parcel ''KUDU'' ''1.4.0-2'' ''ACTIVATED''))
     (mk_parcel ''KUDU'' ''1.4.0-2'' ''AVAILABLE_REMOTELY'') 5 start))) =
     [Print (Downloading ''KUDU'' ''1.4.0-2''), Start_download ''KUDU'' ''1.4.0-2'']"
proof -
  let ?c = "mk_cluster []
        (\<lambda>n. if n = 0 then mk_parcel ''KUDU'' ''1.4.0-2'' ''DOWNLOADED''
             else if n = 1 then mk_parcel ''KUDU'' ''1.4.0-2'' ''DISTRIBUTED''
             else mk_parcel ''KUDU'' ''1.4.0-2'' ''ACTIVATED'')"
  let ?c2 = "mk_cluster [] (\<lambda>_. mk_parcel ''KUDU'' ''1.4.0-2'' ''ACTIVATED'')"
  let ?down = "mk_parcel ''KUDU'' ''1.4.0-2'' ''DOWNLOADED''"
  let ?dist = "mk_parcel ''KUDU'' ''1.4.0-2'' ''DISTRIBUTED''"
  let ?avail = "mk_parcel ''KUDU'' ''1.4.0-2'' ''AVAILABLE_REMOTELY''"
  have run: "ensure_parcel_activated ?c ?down 5 start =
     (Inr (),
      \<lparr>long_bits = 64, polls = 3,
       trace = [Print (Distributing ''KUDU'' ''1.4.0-2''), Start_distribution ''KUDU'' ''1.4.0-2'',
                Get_parcel ''KUDU'' ''1.4.0-2'', Print (Progress_line 0 0), Sleep 1,
                Get_parcel ''KUDU'' ''1.4.0-2'', Print (Distributed ''KUDU'' ''1.4.0-2''),
                Print (Activating ''KUDU'' ''1.4.0-2''), Activate ''KUDU'' ''1.4.0-2'',
                Get_parcel ''KUDU'' ''1.4.0-2'', Print (Activated ''KUDU'' ''1.4.0-2'')]\<rparr>)"
    by (simp add: ensure_parcel_activated_def and_then_def download_step_def
          distribute_step_def activate_step_def wait_for_parcel_stage_def
          xrange_len_def fits_long_def sys_maxint_def
          eval_nat_numeral fetch_parcel_def emit_def)
  have h: "stage ?down = ''DOWNLOADED'' \<and> pending ''DISTRIBUTED'' (status_at ?c ?down (polls start)) \<and>
      stage (status_at ?c ?down (Suc (polls start))) = ''DISTRIBUTED''"
    by (simp add: pending_def status_at_def)
  from h resumes_from_observed_stage [of ?down ?c start 5] obtain tail where
    "trace (snd (ensure_parcel_activated ?c ?down 5 start)) =
       trace start @
       [Print (Distributing (product_id ?down) (version ?down)),
        Start_distribution (product_id ?down) (version ?down),
        Get_parcel (product_id ?down) (version ?down),
        Print (Progress_line (progress (state (status_at ?c ?down (polls start))))
                 (totalProgress (state (status_at ?c ?down (polls start))))),
        Sleep 1,
        Get_parcel (product_id ?down) (version ?down),
        Print (Distributed (product_id ?down) (version ?down)),
        Print (Activating (product_id ?down) (version ?down)),
        Activate (product_id ?down) (version ?down)] @ tail"
    by blast
  then have scenario: "take 9 (trace (snd (ensure_parcel_activated ?c ?down 5 start))) =
     [Print (Distributing ''KUDU'' ''1.4.0-2''), Start_distribution ''KUDU'' ''1.4.0-2'',
      Get_parcel ''KUDU'' ''1.4.0-2'', Print (Progress_line 0 0), Sleep 1,
      Get_parcel ''KUDU'' ''1.4.0-2'', Print (Distributed ''KUDU'' ''1.4.0-2''),
      Print (Activating ''KUDU'' ''1.4.0-2''), Activate ''KUDU'' ''1.4.0-2'']"
    by (simp add: status_at_def)
  from resumes_from_observed_stage [of ?dist ?c2 start 5] obtain new where
    "trace (snd (ensure_parcel_activated ?c2 ?dist 5 start)) = trace start @ new"
    "stage ?dist = ''DISTRIBUTED'' \<longrightarrow>
       filter is_request new = [Activate (product_id ?dist) (version ?dist)]"
    by blast
  then have from_dist: "filter is_request (trace (snd (ensure_parcel_activated ?c2 ?dist 5 start))) =
     [Activate ''KUDU'' ''1.4.0-2'']"
    by simp
  from resumes_from_observed_stage [of ?avail ?c2 start 5] obtain new where
    "trace (snd (ensure_parcel_activated ?c2 ?avail 5 start)) = trace start @ new"
    "stage ?avail = ''AVAILABLE_REMOTELY'' \<longrightarrow>
       take 2 new = [Print (Downloading (product_id ?avail) (version ?avail)),
                     Start_download (product_id ?avail) (version ?avail)]"
    by blast
  then have from_avail: "take 2 (trace (snd (ensure_parcel_activated ?c2 ?avail 5 start))) =
     [Print (Downloading ''KUDU'' ''1.4.0-2''), Start_download ''KUDU'' ''1.4.0-2'']"
    by simp
  from run scenario from_dist from_avail show ?thesis
    by (intro conjI)
qed

end
